theory Spec2Isabelle
  imports Complex_Main
begin

section \<open>JavaScript values\<close>

text \<open>
  Strings are sequences of code units; the model keeps the code units 0 to 255, which
  covers every character the converters and the validator test for.

  A Number is an IEEE 754 binary64 value. The finite ones are carried as the rational
  they denote; the two zeros are identified (every comparison of the sources treats
  them alike, and no source divides by a variable).
\<close>

datatype number = NaN | Fin rat | PosInf | NegInf

datatype jsval =
    Undefined
  | Null
  | Bool bool
  | Num number
  | Str string
  | Arr "jsval list"
  | Obj "(string \<times> jsval) list"

datatype error =
    TypeError
  | RequiredColumnsNotFound
  | MissingRequiredField string
  | InvalidContractType
  | InvalidContractValue
  | InvalidPriceType
  | InvalidCurrency
  | InvalidPrice
  | InvalidStartDate
  | InvalidEndDate
  | PriceValidationFailed error
  | MustHaveSubscription
  | SubscriptionHourSlots
  | SubscriptionDayType
  | SubscriptionNotPositive
  | BaseHourSlots
  | BaseDayType
  | PeakOffPeakHourSlots
  | PeakOffPeakDayType
  | TempoDayType
  | TempoHourSlots
  | RootNotObject
  | ContractNotObject
  | PricesNotArray
  | PricesEmpty
  | ExpectedContractMissing string
  | MissingSubscriptionForDateRange
  | NoSubscriptionPrices

subsection \<open>binary64 rounding\<close>

definition pow2 :: "int \<Rightarrow> rat" where
  "pow2 k = (if 0 \<le> k then 2 ^ nat k else 1 / 2 ^ nat (- k))"

definition pow10 :: "int \<Rightarrow> rat" where
  "pow10 k = (if 0 \<le> k then 10 ^ nat k else 1 / 10 ^ nat (- k))"

text \<open>The number of binary digits of a natural number.\<close>

fun bit_length :: "nat \<Rightarrow> nat" where
  "bit_length n = (if n = 0 then 0 else Suc (bit_length (n div 2)))"

declare bit_length.simps [simp del]

text \<open>\<open>ilog2 a\<close> is the exponent \<open>e\<close> with \<open>pow2 e \<le> a < pow2 (e + 1)\<close>, for positive \<open>a\<close>.\<close>

definition ilog2 :: "rat \<Rightarrow> int" where
  "ilog2 a = (if 1 \<le> a then int (bit_length (nat \<lfloor>a\<rfloor>)) - 1
              else - int (bit_length (nat (\<lceil>1 / a\<rceil> - 1))))"

definition round_half_even :: "rat \<Rightarrow> int" where
  "round_half_even x =
     (let f = \<lfloor>x\<rfloor>; d = x - of_int f
      in if d < 1 / 2 then f
         else if 1 / 2 < d then f + 1
         else if even f then f else f + 1)"

text \<open>
  The binary64 value nearest to a rational, ties to even: 53 significant bits for a
  normal value, the fixed quantum \<open>pow2 (- 1074)\<close> below \<open>pow2 (- 1022)\<close>, an infinity when the
  rounded magnitude reaches \<open>pow2 1024\<close>.
\<close>

definition to_double :: "rat \<Rightarrow> number" where
  "to_double r =
     (if r = 0 then Fin 0
      else
        let a = \<bar>r\<bar>;
            e = max (ilog2 a) (- 1022);
            q = pow2 (e - 52);
            v = of_int (round_half_even (a / q)) * q
        in if pow2 1024 \<le> v then (if 0 < r then PosInf else NegInf)
           else Fin (if 0 < r then v else - v))"

text \<open>The \<open>*\<close> operator on Numbers.\<close>

fun js_mul :: "number \<Rightarrow> number \<Rightarrow> number" where
  "js_mul NaN _ = NaN"
| "js_mul _ NaN = NaN"
| "js_mul (Fin a) (Fin b) = to_double (a * b)"
| "js_mul (Fin a) PosInf = (if a = 0 then NaN else if 0 < a then PosInf else NegInf)"
| "js_mul (Fin a) NegInf = (if a = 0 then NaN else if 0 < a then NegInf else PosInf)"
| "js_mul PosInf (Fin b) = (if b = 0 then NaN else if 0 < b then PosInf else NegInf)"
| "js_mul NegInf (Fin b) = (if b = 0 then NaN else if 0 < b then NegInf else PosInf)"
| "js_mul PosInf PosInf = PosInf"
| "js_mul PosInf NegInf = NegInf"
| "js_mul NegInf PosInf = NegInf"
| "js_mul NegInf NegInf = PosInf"

text \<open>The \<open>/\<close> operator with a positive finite constant as divisor (the sources divide by 12 only).\<close>

fun js_div_pos :: "number \<Rightarrow> rat \<Rightarrow> number" where
  "js_div_pos NaN c = NaN"
| "js_div_pos (Fin a) c = to_double (a / c)"
| "js_div_pos PosInf c = PosInf"
| "js_div_pos NegInf c = NegInf"

text \<open>
  \<open>Math.round\<close>: the integer nearest to the argument, the larger one of two equally
  near integers.
\<close>

fun Math_round :: "number \<Rightarrow> number" where
  "Math_round (Fin x) = Fin (of_int \<lfloor>x + 1 / 2\<rfloor>)"
| "Math_round n = n"

subsection \<open>Strings\<close>

definition is_ws :: "char \<Rightarrow> bool" where
  "is_ws c = (c \<in> set [CHR 0x09, CHR 0x0A, CHR 0x0B, CHR 0x0C, CHR 0x0D, CHR 0x20, CHR 0xA0])"

text \<open>\<open>String.prototype.trim\<close>.\<close>

definition js_trim :: "string \<Rightarrow> string" where
  "js_trim s = rev (dropWhile is_ws (rev (dropWhile is_ws s)))"

text \<open>\<open>s.split(c)\<close> for a separator of one character: never an empty list.\<close>

fun split_on :: "char \<Rightarrow> string \<Rightarrow> string list" where
  "split_on c [] = [[]]"
| "split_on c (x # xs) =
     (if x = c then [] # split_on c xs
      else (case split_on c xs of p # ps \<Rightarrow> (x # p) # ps | [] \<Rightarrow> [[x]]))"

text \<open>\<open>s.replace(c, r)\<close> for a pattern of one character: the first occurrence only.\<close>

fun replace_first :: "char \<Rightarrow> string \<Rightarrow> string \<Rightarrow> string" where
  "replace_first c r [] = []"
| "replace_first c r (x # xs) = (if x = c then r @ xs else x # replace_first c r xs)"

text \<open>\<open>s.padStart(2, "0")\<close>.\<close>

definition padStart2 :: "string \<Rightarrow> string" where
  "padStart2 s = replicate (2 - length s) CHR ''0'' @ s"

text \<open>\<open>xs.indexOf(x)\<close>; \<open>None\<close> stands for \<open>-1\<close>.\<close>

fun indexOf :: "'a list \<Rightarrow> 'a \<Rightarrow> nat option" where
  "indexOf [] x = None"
| "indexOf (y # ys) x = (if y = x then Some 0 else map_option Suc (indexOf ys x))"

text \<open>\<open>xs[i]\<close>; \<open>None\<close> stands for \<open>undefined\<close>.\<close>

fun nth_opt :: "'a list \<Rightarrow> nat \<Rightarrow> 'a option" where
  "nth_opt [] i = None"
| "nth_opt (x # xs) 0 = Some x"
| "nth_opt (x # xs) (Suc i) = nth_opt xs i"

text \<open>\<open>!s\<close> for a value that is a string or \<open>undefined\<close>.\<close>

fun falsy_str :: "string option \<Rightarrow> bool" where
  "falsy_str None = True"
| "falsy_str (Some s) = (s = [])"

subsection \<open>parseFloat\<close>

definition is_digit :: "char \<Rightarrow> bool" where
  "is_digit c = (c \<in> set ''0123456789'')"

definition digit_val :: "char \<Rightarrow> nat" where
  "digit_val c = of_char c - 48"

definition digits_val :: "string \<Rightarrow> nat" where
  "digits_val ds = foldl (\<lambda>a c. 10 * a + digit_val c) 0 ds"

text \<open>
  The exponent part \<open>[eE][+-]?digits\<close> at the head of a string; 0 when there is none
  (an \<open>e\<close> that no digit follows is not part of the literal).
\<close>

fun exponent_part :: "string \<Rightarrow> int" where
  "exponent_part [] = 0"
| "exponent_part (c # t) =
     (if c = CHR ''e'' \<or> c = CHR ''E'' then
        (case t of
           [] \<Rightarrow> 0
         | s # u \<Rightarrow>
             if s = CHR ''+'' then
               (if takeWhile is_digit u = [] then 0 else int (digits_val (takeWhile is_digit u)))
             else if s = CHR ''-'' then
               (if takeWhile is_digit u = [] then 0 else - int (digits_val (takeWhile is_digit u)))
             else
               (if takeWhile is_digit t = [] then 0 else int (digits_val (takeWhile is_digit t))))
      else 0)"

text \<open>
  The longest prefix that is an unsigned decimal literal, as the mathematical value it
  denotes: \<open>Infinity\<close>, or digits with an optional fraction and exponent. \<open>None\<close> when
  no prefix is a literal.
\<close>

datatype literal = LitInfinity | LitDecimal rat

definition unsigned_literal :: "string \<Rightarrow> literal option" where
  "unsigned_literal s =
     (if take 8 s = ''Infinity'' then Some LitInfinity
      else
        let ip = takeWhile is_digit s;
            r1 = dropWhile is_digit s;
            fp = (case r1 of [] \<Rightarrow> [] | d # t \<Rightarrow> if d = CHR ''.'' then takeWhile is_digit t else []);
            r2 = (case r1 of [] \<Rightarrow> [] | d # t \<Rightarrow> if d = CHR ''.'' then dropWhile is_digit t else r1)
        in if ip = [] \<and> fp = [] then None
           else Some (LitDecimal
                  (of_nat (digits_val (ip @ fp)) * pow10 (exponent_part r2 - int (length fp)))))"

fun signed :: "bool \<Rightarrow> literal option \<Rightarrow> number" where
  "signed neg None = NaN"
| "signed neg (Some LitInfinity) = (if neg then NegInf else PosInf)"
| "signed neg (Some (LitDecimal v)) = to_double (if neg then - v else v)"

text \<open>\<open>parseFloat(s)\<close>: leading white space is skipped, what follows the literal is ignored.\<close>

definition parseFloat :: "string \<Rightarrow> number" where
  "parseFloat s =
     (case dropWhile is_ws s of
        [] \<Rightarrow> NaN
      | c # t \<Rightarrow>
          if c = CHR ''-'' then signed True (unsigned_literal t)
          else if c = CHR ''+'' then signed False (unsigned_literal t)
          else signed False (unsigned_literal (c # t)))"

section \<open>The tabular converters\<close>

subsection \<open>Date conversion\<close>

text \<open>
  \<^verbatim>\<open>
  function convertToIsoDate(dateStr) {
    if (!dateStr) return null;
    const [day, month, year] = dateStr.split("/");
    return `${year}-${month.padStart(2, "0")}-${day.padStart(2, "0")}`;
  }
  \<close>
  The three tabular converters each carry this function, letter for letter. A
  missing \<open>month\<close> is \<open>undefined\<close>, and calling \<open>padStart\<close> on it throws a
  TypeError; a missing \<open>year\<close> is printed as the text \<open>undefined\<close>.
\<close>

definition convertToIsoDate :: "string option \<Rightarrow> error + jsval" where
  "convertToIsoDate dateStr =
     (case dateStr of
        None \<Rightarrow> Inr Null
      | Some s \<Rightarrow>
          if s = [] then Inr Null
          else
            (case split_on CHR ''/'' s of
               day # month # rest \<Rightarrow>
                 Inr (Str ((case rest of [] \<Rightarrow> ''undefined'' | year # _ \<Rightarrow> year)
                           @ ''-'' @ padStart2 month @ ''-'' @ padStart2 day))
             | _ \<Rightarrow> Inl TypeError))"

subsection \<open>The result object\<close>

text \<open>
  Every converter builds \<open>result = {}\<close>, an object from power level to the array of
  its price objects. Reading \<open>result[key]\<close> also finds what \<open>Object.prototype\<close>
  holds under \<open>key\<close>: for these names the read is truthy before any write, no array is
  created, and \<open>result[key].push\<close> is not a function.
\<close>

type_synonym result = "string \<rightharpoonup> jsval list"

definition Object_prototype_keys :: "string list" where
  "Object_prototype_keys =
     [''constructor'', ''__defineGetter__'', ''__defineSetter__'', ''hasOwnProperty'',
      ''__lookupGetter__'', ''__lookupSetter__'', ''isPrototypeOf'',
      ''propertyIsEnumerable'', ''toString'', ''valueOf'', ''__proto__'',
      ''toLocaleString'']"

text \<open>
  \<^verbatim>\<open>
  if (!result[subscribedPower]) { result[subscribedPower] = []; }
  result[subscribedPower].push(...)
  \<close>
  with the pushes of one row taken together, in their order.
\<close>

definition push_prices :: "result \<Rightarrow> string \<Rightarrow> jsval list \<Rightarrow> error + result" where
  "push_prices result subscribedPower priceObjects =
     (if subscribedPower \<in> set Object_prototype_keys then Inl TypeError
      else Inr (result(subscribedPower \<mapsto>
                  (case result subscribedPower of None \<Rightarrow> [] | Some ps \<Rightarrow> ps) @ priceObjects)))"

text \<open>The object literal every tabular converter writes, with its eight fields in their order.\<close>

definition price_object ::
  "string \<Rightarrow> string \<Rightarrow> jsval \<Rightarrow> jsval \<Rightarrow> number \<Rightarrow> jsval \<Rightarrow> jsval \<Rightarrow> jsval" where
  "price_object contract price_type start_date end_date price hour_slots day_type =
     Obj [(''contract'', Str contract),
          (''price_type'', Str price_type),
          (''currency'', Str ''euro''),
          (''start_date'', start_date),
          (''end_date'', end_date),
          (''price'', Num price),
          (''hour_slots'', hour_slots),
          (''day_type'', day_type)]"

text \<open>\<open>Math.round(parseFloat(s.replace(",", ".")) * 10000)\<close>\<close>

definition scaled_price :: "string \<Rightarrow> number" where
  "scaled_price s = Math_round (js_mul (parseFloat (replace_first CHR '','' ''.'' s)) (Fin 10000))"

text \<open>\<open>Math.round((parseFloat(s.replace(",", ".")) / 12) * 10000)\<close>\<close>

definition monthly_price :: "string \<Rightarrow> number" where
  "monthly_price s =
     Math_round (js_mul (js_div_pos (parseFloat (replace_first CHR '','' ''.'' s)) 12) (Fin 10000))"

text \<open>\<open>endDate ? convertToIsoDate(endDate) : null\<close>\<close>

definition end_date_iso :: "string option \<Rightarrow> error + jsval" where
  "end_date_iso endDate = (if falsy_str endDate then Inr Null else convertToIsoDate endDate)"

text \<open>The loop over the data rows: the first error ends it.\<close>

fun for_rows :: "(string \<Rightarrow> result \<Rightarrow> error + result) \<Rightarrow> string list \<Rightarrow> result \<Rightarrow> error + result" where
  "for_rows body [] result = Inr result"
| "for_rows body (l # ls) result =
     (case body l result of Inl e \<Rightarrow> Inl e | Inr result' \<Rightarrow> for_rows body ls result')"

text \<open>\<open>csvContent.trim().split("\n")\<close> and \<open>lines[0].split(";").map((header) => header.trim())\<close>\<close>

definition csv_lines :: "string \<Rightarrow> string list" where
  "csv_lines csvContent = split_on CHR 0x0A (js_trim csvContent)"

definition csv_headers :: "string \<Rightarrow> string list" where
  "csv_headers csvContent = map js_trim (split_on CHR '';'' (hd (csv_lines csvContent)))"

subsection \<open>Flat-rate converter\<close>

text \<open>One pass of the loop body of \<open>processBaseOptions\<close> (the converter of \<open>Option_Base.csv\<close>).\<close>

definition base_row :: "nat \<Rightarrow> nat \<Rightarrow> nat \<Rightarrow> nat \<Rightarrow> nat \<Rightarrow> string \<Rightarrow> result \<Rightarrow> error + result" where
  "base_row dateDebutIndex dateFinIndex pSouscriteIndex partVariableTtcIndex partFixeTtcIndex
       rawLine result =
     (let line = js_trim rawLine in
      if line = [] then Inr result
      else
        let columns = split_on CHR '';'' line;
            endDate = nth_opt columns dateFinIndex
        in case (nth_opt columns pSouscriteIndex, nth_opt columns dateDebutIndex,
                 nth_opt columns partVariableTtcIndex, nth_opt columns partFixeTtcIndex) of
             (Some subscribedPower, Some startDate, Some priceStr, Some subscriptionPriceStr) \<Rightarrow>
               if subscribedPower = [] \<or> startDate = [] \<or> priceStr = [] \<or> subscriptionPriceStr = []
               then Inr result
               else
                 let price = scaled_price priceStr;
                     subscriptionPrice = monthly_price subscriptionPriceStr
                 in (case convertToIsoDate (Some startDate) of
                       Inl e \<Rightarrow> Inl e
                     | Inr startDateIso \<Rightarrow>
                         (case end_date_iso endDate of
                            Inl e \<Rightarrow> Inl e
                          | Inr endDateIso \<Rightarrow>
                              push_prices result subscribedPower
                                [price_object ''base'' ''consumption'' startDateIso endDateIso
                                   price Null Null,
                                 price_object ''base'' ''subscription'' startDateIso endDateIso
                                   subscriptionPrice Null Null]))
           | _ \<Rightarrow> Inr result)"

definition processBaseOptions :: "string \<Rightarrow> error + result" where
  "processBaseOptions csvContent =
     (let lines = csv_lines csvContent;
          headers = csv_headers csvContent
      in case (indexOf headers ''DATE_DEBUT'', indexOf headers ''DATE_FIN'',
               indexOf headers ''P_SOUSCRITE'', indexOf headers ''PART_VARIABLE_TTC'',
               indexOf headers ''PART_FIXE_TTC'') of
           (Some dateDebutIndex, Some dateFinIndex, Some pSouscriteIndex,
            Some partVariableTtcIndex, Some partFixeTtcIndex) \<Rightarrow>
             for_rows (base_row dateDebutIndex dateFinIndex pSouscriteIndex
                         partVariableTtcIndex partFixeTtcIndex)
               (tl lines) Map.empty
         | _ \<Rightarrow> Inl RequiredColumnsNotFound)"

subsection \<open>Dual-rate converter\<close>

text \<open>One pass of the loop body of \<open>processPeakOffPeakOptions\<close>.\<close>

definition peak_off_peak_row ::
  "nat \<Rightarrow> nat \<Rightarrow> nat \<Rightarrow> nat \<Rightarrow> nat \<Rightarrow> nat \<Rightarrow> string \<Rightarrow> result \<Rightarrow> error + result" where
  "peak_off_peak_row dateDebutIndex dateFinIndex pSouscriteIndex partVariableHcTtcIndex
       partVariableHpTtcIndex partFixeTtcIndex rawLine result =
     (let line = js_trim rawLine in
      if line = [] then Inr result
      else
        let columns = split_on CHR '';'' line;
            endDate = nth_opt columns dateFinIndex
        in case (nth_opt columns pSouscriteIndex, nth_opt columns dateDebutIndex,
                 nth_opt columns partVariableHcTtcIndex, nth_opt columns partVariableHpTtcIndex,
                 nth_opt columns partFixeTtcIndex) of
             (Some subscribedPower, Some startDate, Some offPeakPriceStr, Some peakPriceStr,
              Some subscriptionPriceStr) \<Rightarrow>
               if subscribedPower = [] \<or> startDate = [] \<or> offPeakPriceStr = []
                  \<or> peakPriceStr = [] \<or> subscriptionPriceStr = []
               then Inr result
               else
                 let offPeakPrice = scaled_price offPeakPriceStr;
                     peakPrice = scaled_price peakPriceStr;
                     subscriptionPrice = monthly_price subscriptionPriceStr
                 in (case convertToIsoDate (Some startDate) of
                       Inl e \<Rightarrow> Inl e
                     | Inr startDateIso \<Rightarrow>
                         (case end_date_iso endDate of
                            Inl e \<Rightarrow> Inl e
                          | Inr endDateIso \<Rightarrow>
                              push_prices result subscribedPower
                                [price_object ''peak-off-peak'' ''consumption'' startDateIso
                                   endDateIso offPeakPrice (Str ''TO_REPLACE_OFF_PEAK'') Null,
                                 price_object ''peak-off-peak'' ''consumption'' startDateIso
                                   endDateIso peakPrice (Str ''TO_REPLACE_PEAK'') Null,
                                 price_object ''peak-off-peak'' ''subscription'' startDateIso
                                   endDateIso subscriptionPrice Null Null]))
           | _ \<Rightarrow> Inr result)"

definition processPeakOffPeakOptions :: "string \<Rightarrow> error + result" where
  "processPeakOffPeakOptions csvContent =
     (let lines = csv_lines csvContent;
          headers = csv_headers csvContent
      in case (indexOf headers ''DATE_DEBUT'', indexOf headers ''DATE_FIN'',
               indexOf headers ''P_SOUSCRITE'', indexOf headers ''PART_VARIABLE_HC_TTC'',
               indexOf headers ''PART_VARIABLE_HP_TTC'', indexOf headers ''PART_FIXE_TTC'') of
           (Some dateDebutIndex, Some dateFinIndex, Some pSouscriteIndex,
            Some partVariableHcTtcIndex, Some partVariableHpTtcIndex, Some partFixeTtcIndex) \<Rightarrow>
             for_rows (peak_off_peak_row dateDebutIndex dateFinIndex pSouscriteIndex
                         partVariableHcTtcIndex partVariableHpTtcIndex partFixeTtcIndex)
               (tl lines) Map.empty
         | _ \<Rightarrow> Inl RequiredColumnsNotFound)"

subsection \<open>Calendar-tiered converter\<close>

definition offPeakSlots :: string where
  "offPeakSlots =
     ''00:00,00:30,01:00,01:30,02:00,02:30,03:00,03:30,04:00,04:30,05:00,05:30,22:00,22:30,23:00,23:30''"

definition peakSlots :: string where
  "peakSlots =
     ''06:00,06:30,07:00,07:30,08:00,08:30,09:00,09:30,10:00,10:30,11:00,11:30,12:00,12:30,13:00,13:30,14:00,14:30,15:00,15:30,16:00,16:30,17:00,17:30,18:00,18:30,19:00,19:30,20:00,20:30,21:00,21:30''"

text \<open>The ten column indices \<open>processTempoOptions\<close> looks up in the header line.\<close>

record tempo_columns =
  dateDebutIndex :: nat
  dateFinIndex :: nat
  pSouscriteIndex :: nat
  partVariableHcBleuTtcIndex :: nat
  partVariableHpBleuTtcIndex :: nat
  partVariableHcBlancTtcIndex :: nat
  partVariableHpBlancTtcIndex :: nat
  partVariableHcRougeTtcIndex :: nat
  partVariableHpRougeTtcIndex :: nat
  partFixeTtcIndex :: nat

text \<open>
  The seven object literals of one row. The six consumption objects carry the contract
  name \<open>tempo\<close>, the subscription object carries \<open>es-tempo\<close>, as the source writes them.
\<close>

definition tempo_price_objects ::
  "jsval \<Rightarrow> jsval \<Rightarrow> number \<Rightarrow> number \<Rightarrow> number \<Rightarrow> number \<Rightarrow> number \<Rightarrow> number \<Rightarrow> number
     \<Rightarrow> jsval list" where
  "tempo_price_objects startDateIso endDateIso blueOffPeakPrice bluePeakPrice whiteOffPeakPrice
       whitePeakPrice redOffPeakPrice redPeakPrice subscriptionPrice =
     [price_object ''tempo'' ''consumption'' startDateIso endDateIso blueOffPeakPrice
        (Str offPeakSlots) (Str ''blue''),
      price_object ''tempo'' ''consumption'' startDateIso endDateIso bluePeakPrice
        (Str peakSlots) (Str ''blue''),
      price_object ''tempo'' ''consumption'' startDateIso endDateIso whiteOffPeakPrice
        (Str offPeakSlots) (Str ''white''),
      price_object ''tempo'' ''consumption'' startDateIso endDateIso whitePeakPrice
        (Str peakSlots) (Str ''white''),
      price_object ''tempo'' ''consumption'' startDateIso endDateIso redOffPeakPrice
        (Str offPeakSlots) (Str ''red''),
      price_object ''tempo'' ''consumption'' startDateIso endDateIso redPeakPrice
        (Str peakSlots) (Str ''red''),
      price_object ''es-tempo'' ''subscription'' startDateIso endDateIso subscriptionPrice
        Null Null]"

text \<open>One pass of the loop body of \<open>processTempoOptions\<close>.\<close>

definition tempo_row :: "tempo_columns \<Rightarrow> string \<Rightarrow> result \<Rightarrow> error + result" where
  "tempo_row ix rawLine result =
     (let line = js_trim rawLine in
      if line = [] then Inr result
      else
        let columns = split_on CHR '';'' line;
            subscribedPower = nth_opt columns (pSouscriteIndex ix);
            startDate = nth_opt columns (dateDebutIndex ix);
            endDate = nth_opt columns (dateFinIndex ix);
            blueOffPeakStr = nth_opt columns (partVariableHcBleuTtcIndex ix);
            bluePeakStr = nth_opt columns (partVariableHpBleuTtcIndex ix);
            whiteOffPeakStr = nth_opt columns (partVariableHcBlancTtcIndex ix);
            whitePeakStr = nth_opt columns (partVariableHpBlancTtcIndex ix);
            redOffPeakStr = nth_opt columns (partVariableHcRougeTtcIndex ix);
            redPeakStr = nth_opt columns (partVariableHpRougeTtcIndex ix);
            subscriptionPriceStr = nth_opt columns (partFixeTtcIndex ix)
        in if falsy_str subscribedPower \<or> falsy_str startDate \<or> falsy_str blueOffPeakStr
              \<or> falsy_str bluePeakStr \<or> falsy_str whiteOffPeakStr \<or> falsy_str whitePeakStr
              \<or> falsy_str redOffPeakStr \<or> falsy_str redPeakStr \<or> falsy_str subscriptionPriceStr
           then Inr result
           else
             (case convertToIsoDate startDate of
                Inl e \<Rightarrow> Inl e
              | Inr startDateIso \<Rightarrow>
                  (case end_date_iso endDate of
                     Inl e \<Rightarrow> Inl e
                   | Inr endDateIso \<Rightarrow>
                       push_prices result (the subscribedPower)
                         (tempo_price_objects startDateIso endDateIso
                            (scaled_price (the blueOffPeakStr))
                            (scaled_price (the bluePeakStr))
                            (scaled_price (the whiteOffPeakStr))
                            (scaled_price (the whitePeakStr))
                            (scaled_price (the redOffPeakStr))
                            (scaled_price (the redPeakStr))
                            (monthly_price (the subscriptionPriceStr))))))"

definition processTempoOptions :: "string \<Rightarrow> error + result" where
  "processTempoOptions csvContent =
     (let lines = csv_lines csvContent;
          headers = csv_headers csvContent
      in case (indexOf headers ''DATE_DEBUT'', indexOf headers ''DATE_FIN'',
               indexOf headers ''P_SOUSCRITE'') of
           (Some i1, Some i2, Some i3) \<Rightarrow>
             (case (indexOf headers ''PART_VARIABLE_HCBleu_TTC'',
                    indexOf headers ''PART_VARIABLE_HPBleu_TTC'',
                    indexOf headers ''PART_VARIABLE_HCBlanc_TTC'',
                    indexOf headers ''PART_VARIABLE_HPBlanc_TTC'') of
                (Some i4, Some i5, Some i6, Some i7) \<Rightarrow>
                  (case (indexOf headers ''PART_VARIABLE_HCRouge_TTC'',
                         indexOf headers ''PART_VARIABLE_HPRouge_TTC'',
                         indexOf headers ''PART_FIXE_TTC'') of
                     (Some i8, Some i9, Some i10) \<Rightarrow>
                       for_rows
                         (tempo_row \<lparr>dateDebutIndex = i1, dateFinIndex = i2, pSouscriteIndex = i3,
                            partVariableHcBleuTtcIndex = i4, partVariableHpBleuTtcIndex = i5,
                            partVariableHcBlancTtcIndex = i6, partVariableHpBlancTtcIndex = i7,
                            partVariableHcRougeTtcIndex = i8, partVariableHpRougeTtcIndex = i9,
                            partFixeTtcIndex = i10\<rparr>)
                         (tl lines) Map.empty
                   | _ \<Rightarrow> Inl RequiredColumnsNotFound)
              | _ \<Rightarrow> Inl RequiredColumnsNotFound)
         | _ \<Rightarrow> Inl RequiredColumnsNotFound)"

section \<open>The static-catalog converters\<close>

text \<open>
  These converters copy objects that \<open>JSON.parse\<close> has made, and the claims about them
  are about which arrays and objects are shared. So the model has a store: a value is a
  primitive or a reference to a cell, a cell is an array or an object, a new cell gets
  the next free address. The store and the two parsed values are what the two
  \<open>JSON.parse\<close> calls of a converter leave behind.
\<close>

type_synonym addr = nat

datatype hval =
    HUndefined
  | HNull
  | HBool bool
  | HNum number
  | HStr string
  | Ref addr

datatype cell =
    ArrCell "hval list"
  | ObjCell "(string \<times> hval) list"

type_synonym heap = "cell list"

definition cell_at :: "heap \<Rightarrow> addr \<Rightarrow> cell option" where
  "cell_at h a = (if a < length h then Some (h ! a) else None)"

definition alloc :: "heap \<Rightarrow> cell \<Rightarrow> addr \<times> heap" where
  "alloc h c = (length h, h @ [c])"

definition digit_char :: "nat \<Rightarrow> char" where
  "digit_char d = ''0123456789'' ! d"

fun nat_to_string :: "nat \<Rightarrow> string" where
  "nat_to_string n =
     (if n < 10 then [digit_char n] else nat_to_string (n div 10) @ [digit_char (n mod 10)])"

declare nat_to_string.simps [simp del]

text \<open>
  The own enumerable properties of a value, in their order: those of an object, the
  indices of an array, the indices of a string with its characters; a number, a
  boolean, \<open>null\<close> and \<open>undefined\<close> have none. This is what \<open>{...v}\<close> copies, what
  \<open>Object.keys(v)\<close> names and where \<open>v[key]\<close> finds the value of an own key.
\<close>

definition own_props :: "heap \<Rightarrow> hval \<Rightarrow> (string \<times> hval) list" where
  "own_props h v =
     (case v of
        HStr s \<Rightarrow> zip (map nat_to_string [0..<length s]) (map (\<lambda>c. HStr [c]) s)
      | Ref a \<Rightarrow>
          (case cell_at h a of
             Some (ObjCell kvs) \<Rightarrow> kvs
           | Some (ArrCell vs) \<Rightarrow> zip (map nat_to_string [0..<length vs]) vs
           | None \<Rightarrow> [])
      | _ \<Rightarrow> [])"

text \<open>\<open>Object.keys(v)\<close>: a TypeError on \<open>null\<close> and \<open>undefined\<close>.\<close>

definition Object_keys :: "heap \<Rightarrow> hval \<Rightarrow> error + string list" where
  "Object_keys h v =
     (if v = HNull \<or> v = HUndefined then Inl TypeError else Inr (map fst (own_props h v)))"

text \<open>\<open>v[key]\<close> for a key that \<open>Object.keys(v)\<close> has named.\<close>

definition get_own :: "heap \<Rightarrow> hval \<Rightarrow> string \<Rightarrow> hval" where
  "get_own h v key = (case map_of (own_props h v) key of None \<Rightarrow> HUndefined | Some x \<Rightarrow> x)"

fun h_truthy :: "hval \<Rightarrow> bool" where
  "h_truthy HUndefined = False"
| "h_truthy HNull = False"
| "h_truthy (HBool b) = b"
| "h_truthy (HNum n) = (n \<noteq> NaN \<and> n \<noteq> Fin 0)"
| "h_truthy (HStr s) = (s \<noteq> [])"
| "h_truthy (Ref a) = True"

text \<open>
  The elements \<open>...v\<close> spreads into an array literal: those of an array, the characters
  of a string; anything else is not iterable.
\<close>

definition iterate :: "heap \<Rightarrow> hval \<Rightarrow> error + hval list" where
  "iterate h v =
     (case v of
        HStr s \<Rightarrow> Inr (map (\<lambda>c. HStr [c]) s)
      | Ref a \<Rightarrow> (case cell_at h a of Some (ArrCell vs) \<Rightarrow> Inr vs | _ \<Rightarrow> Inl TypeError)
      | _ \<Rightarrow> Inl TypeError)"

text \<open>The callback \<open>(priceEntry) => ({ ...priceEntry })\<close> over the elements of an array.\<close>

fun copy_entries :: "heap \<Rightarrow> hval list \<Rightarrow> addr list \<times> heap" where
  "copy_entries h [] = ([], h)"
| "copy_entries h (priceEntry # others) =
     (let (a, h1) = alloc h (ObjCell (own_props h priceEntry));
          (copies, h2) = copy_entries h1 others
      in (a # copies, h2))"

text \<open>
  \<open>contractData.map((priceEntry) => ({ ...priceEntry }))\<close>: the address of the new array
  of copies. Only an array has \<open>map\<close>; on any other value the call throws a TypeError.
\<close>

definition map_copy :: "heap \<Rightarrow> hval \<Rightarrow> error + addr \<times> heap" where
  "map_copy h contractData =
     (case contractData of
        Ref a \<Rightarrow>
          (case cell_at h a of
             Some (ArrCell entries) \<Rightarrow>
               (let (copies, h1) = copy_entries h entries
                in Inr (alloc h1 (ArrCell (map Ref copies))))
           | _ \<Rightarrow> Inl TypeError)
      | _ \<Rightarrow> Inl TypeError)"

text \<open>The result object of these converters, from power level to the array it is bound to.\<close>

type_synonym hresult = "string \<rightharpoonup> hval"

text \<open>
  \<open>result[power] = v\<close> for an object \<open>v\<close>: under the key \<open>__proto__\<close> the assignment sets
  the prototype of \<open>result\<close> and adds no property.
\<close>

definition assign :: "hresult \<Rightarrow> string \<Rightarrow> hval \<Rightarrow> hresult" where
  "assign result key v = (if key = ''__proto__'' then result else result(key \<mapsto> v))"

subsection \<open>With a subscription table\<close>

text \<open>
  \<^verbatim>\<open>
  subscribedPowers.forEach((power) => {
    const consumptionPrices = contractData.map((priceEntry) => ({ ...priceEntry }));
    const subscriptionPrices = subscriptionData[power] || [];
    result[power] = [...consumptionPrices, ...subscriptionPrices];
  });
  \<close>
\<close>

fun catalog_loop ::
  "hval \<Rightarrow> hval \<Rightarrow> string list \<Rightarrow> hresult \<Rightarrow> heap \<Rightarrow> error + hresult \<times> heap" where
  "catalog_loop contractData subscriptionData [] result h = Inr (result, h)"
| "catalog_loop contractData subscriptionData (subscribedPower # powers) result h =
     (case map_copy h contractData of
        Inl e \<Rightarrow> Inl e
      | Inr (consumptionPrices, h1) \<Rightarrow>
          (case iterate h1 (Ref consumptionPrices) of
             Inl e \<Rightarrow> Inl e
           | Inr consumption \<Rightarrow>
               (case (if h_truthy (get_own h1 subscriptionData subscribedPower)
                      then iterate h1 (get_own h1 subscriptionData subscribedPower) else Inr []) of
                  Inl e \<Rightarrow> Inl e
                | Inr subscription \<Rightarrow>
                    (let (a, h2) = alloc h1 (ArrCell (consumption @ subscription))
                     in catalog_loop contractData subscriptionData powers
                          (assign result subscribedPower (Ref a)) h2))))"

text \<open>
  \<open>processBaseOptions\<close> of the converter that reads \<open>contract.json\<close> and
  \<open>subscription.json\<close>.
\<close>

definition processBaseOptions_catalog :: "heap \<Rightarrow> hval \<Rightarrow> hval \<Rightarrow> error + hresult \<times> heap" where
  "processBaseOptions_catalog h contractData subscriptionData =
     (case Object_keys h subscriptionData of
        Inl e \<Rightarrow> Inl e
      | Inr subscribedPowers \<Rightarrow>
          catalog_loop contractData subscriptionData subscribedPowers Map.empty h)"

subsection \<open>With the fixed list of power levels\<close>

definition subscribedPowers :: "string list" where
  "subscribedPowers =
     [''3'', ''4'', ''5'', ''6'', ''7'', ''8'', ''9'', ''10'', ''11'', ''12'', ''13'', ''14'',
      ''15'', ''16'', ''17'', ''18'', ''19'', ''20'', ''21'', ''22'', ''23'', ''24'', ''25'',
      ''26'', ''27'', ''28'', ''29'', ''30'', ''31'', ''32'', ''33'', ''34'', ''35'', ''36'']"

text \<open>
  \<^verbatim>\<open>
  subscribedPowers.forEach((power) => {
    result[power] = contractData.map((priceEntry) => ({ ...priceEntry }));
  });
  \<close>
\<close>

fun fixed_loop :: "hval \<Rightarrow> string list \<Rightarrow> hresult \<Rightarrow> heap \<Rightarrow> error + hresult \<times> heap" where
  "fixed_loop contractData [] result h = Inr (result, h)"
| "fixed_loop contractData (subscribedPower # powers) result h =
     (case map_copy h contractData of
        Inl e \<Rightarrow> Inl e
      | Inr (a, h1) \<Rightarrow> fixed_loop contractData powers (assign result subscribedPower (Ref a)) h1)"

text \<open>\<open>processBaseOptions\<close> of the converter that reads \<open>contract.json\<close> only.\<close>

definition processBaseOptions_fixed :: "heap \<Rightarrow> hval \<Rightarrow> error + hresult \<times> heap" where
  "processBaseOptions_fixed h contractData = fixed_loop contractData subscribedPowers Map.empty h"

subsection \<open>Reading a value out of the store\<close>

text \<open>
  The value a reader finds when it follows references to the depth \<open>k\<close>; deeper
  references, and references to no cell, read as \<open>undefined\<close>.
\<close>

fun reify :: "nat \<Rightarrow> heap \<Rightarrow> hval \<Rightarrow> jsval" where
  "reify k h HUndefined = Undefined"
| "reify k h HNull = Null"
| "reify k h (HBool b) = Bool b"
| "reify k h (HNum n) = Num n"
| "reify k h (HStr s) = Str s"
| "reify 0 h (Ref a) = Undefined"
| "reify (Suc k) h (Ref a) =
     (case cell_at h a of
        None \<Rightarrow> Undefined
      | Some (ArrCell vs) \<Rightarrow> Arr (map (reify k h) vs)
      | Some (ObjCell kvs) \<Rightarrow> Obj (map (\<lambda>(name, v). (name, reify k h v)) kvs))"

section \<open>The validator\<close>

text \<open>
  The validator reads the aggregate back from its JSON file, so it may meet any JSON
  value where a price object or one of its fields is expected. Two conversions of the
  language that no check of the validator decides on well-typed data are parameters of
  the model: the text of a Number, and the Number a string denotes.
\<close>

record primitives =
  NumberToString :: "number \<Rightarrow> string"
  StringToNumber :: "string \<Rightarrow> number"

fun join_with :: "string \<Rightarrow> string list \<Rightarrow> string" where
  "join_with sep [] = []"
| "join_with sep [x] = x"
| "join_with sep (x # y # ys) = x @ sep @ join_with sep (y # ys)"

text \<open>
  The conversion to a string that a template literal and \<open>RegExp.prototype.test\<close> apply:
  an array joins its elements with commas, printing \<open>null\<close> and \<open>undefined\<close> elements as
  empty.
\<close>

fun ToString :: "primitives \<Rightarrow> jsval \<Rightarrow> string" where
  "ToString P Undefined = ''undefined''"
| "ToString P Null = ''null''"
| "ToString P (Bool b) = (if b then ''true'' else ''false'')"
| "ToString P (Num n) = NumberToString P n"
| "ToString P (Str s) = s"
| "ToString P (Arr xs) =
     join_with '',''
       (map (\<lambda>x. if x = Null \<or> x = Undefined then [] else ToString P x) xs)"
| "ToString P (Obj kvs) = ''[object Object]''"

text \<open>The conversion to a Number that \<open><=\<close> applies to an operand.\<close>

fun ToNumber :: "primitives \<Rightarrow> jsval \<Rightarrow> number" where
  "ToNumber P Undefined = NaN"
| "ToNumber P Null = Fin 0"
| "ToNumber P (Bool b) = (if b then Fin 1 else Fin 0)"
| "ToNumber P (Num n) = n"
| "ToNumber P (Str s) = StringToNumber P s"
| "ToNumber P (Arr xs) = StringToNumber P (ToString P (Arr xs))"
| "ToNumber P (Obj kvs) = StringToNumber P (ToString P (Obj kvs))"

fun number_less_zero :: "number \<Rightarrow> bool" where
  "number_less_zero (Fin x) = (x < 0)"
| "number_less_zero NegInf = True"
| "number_less_zero _ = False"

fun number_le_zero :: "number \<Rightarrow> bool" where
  "number_le_zero (Fin x) = (x \<le> 0)"
| "number_le_zero NegInf = True"
| "number_le_zero _ = False"

fun truthy :: "jsval \<Rightarrow> bool" where
  "truthy Undefined = False"
| "truthy Null = False"
| "truthy (Bool b) = b"
| "truthy (Num n) = (n \<noteq> NaN \<and> n \<noteq> Fin 0)"
| "truthy (Str s) = (s \<noteq> [])"
| "truthy (Arr xs) = True"
| "truthy (Obj kvs) = True"

text \<open>
  \<open>v.name\<close> for one of the field names of a price object, none of which
  \<open>Object.prototype\<close>, \<open>Array.prototype\<close> or a primitive's wrapper defines: the own
  property of an object, \<open>undefined\<close> otherwise. (On \<open>null\<close> and \<open>undefined\<close> the read
  throws; the callers check for them first.)
\<close>

fun get_prop :: "jsval \<Rightarrow> string \<Rightarrow> jsval" where
  "get_prop (Obj kvs) name = (case map_of kvs name of None \<Rightarrow> Undefined | Some v \<Rightarrow> v)"
| "get_prop v name = Undefined"

text \<open>\<open>name in v\<close>, for the same field names: a TypeError when \<open>v\<close> is not an object.\<close>

fun has_prop :: "string \<Rightarrow> jsval \<Rightarrow> error + bool" where
  "has_prop name (Obj kvs) = Inr (name \<in> set (map fst kvs))"
| "has_prop name (Arr xs) = Inr False"
| "has_prop name v = Inl TypeError"

text \<open>\<open>/^\d{4}-\d{2}-\d{2}$/\<close> on a string.\<close>

fun dateRegex :: "string \<Rightarrow> bool" where
  "dateRegex [y1, y2, y3, y4, d1, m1, m2, d2, t1, t2] =
     (is_digit y1 \<and> is_digit y2 \<and> is_digit y3 \<and> is_digit y4 \<and> d1 = CHR ''-''
      \<and> is_digit m1 \<and> is_digit m2 \<and> d2 = CHR ''-'' \<and> is_digit t1 \<and> is_digit t2)"
| "dateRegex s = False"

definition dateRegex_test :: "primitives \<Rightarrow> jsval \<Rightarrow> bool" where
  "dateRegex_test P v = dateRegex (ToString P v)"

definition requiredFields :: "string list" where
  "requiredFields = [''contract'', ''price_type'', ''currency'', ''start_date'', ''price'']"

definition validContracts :: "string list" where
  "validContracts = [''base'', ''peak-off-peak'', ''edf-tempo'']"

text \<open>The loop over \<open>requiredFields\<close>.\<close>

fun check_required :: "string list \<Rightarrow> jsval \<Rightarrow> error + unit" where
  "check_required [] priceObj = Inr ()"
| "check_required (field # more_fields) priceObj =
     (case has_prop field priceObj of
        Inl e \<Rightarrow> Inl e
      | Inr present \<Rightarrow>
          if \<not> present then Inl (MissingRequiredField field)
          else check_required more_fields priceObj)"

fun is_Str :: "jsval \<Rightarrow> bool" where
  "is_Str (Str s) = True"
| "is_Str v = False"

definition validatePriceObject :: "primitives \<Rightarrow> jsval \<Rightarrow> error + unit" where
  "validatePriceObject P priceObj =
     (case check_required requiredFields priceObj of
        Inl e \<Rightarrow> Inl e
      | Inr _ \<Rightarrow>
          if \<not> is_Str (get_prop priceObj ''contract'') then Inl InvalidContractType
          else if get_prop priceObj ''contract'' \<notin> Str ` set validContracts
            then Inl InvalidContractValue
          else if get_prop priceObj ''price_type'' \<notin> {Str ''consumption'', Str ''subscription''}
            then Inl InvalidPriceType
          else if get_prop priceObj ''currency'' \<noteq> Str ''euro'' then Inl InvalidCurrency
          else if (case get_prop priceObj ''price'' of
                     Num n \<Rightarrow> number_less_zero n
                   | _ \<Rightarrow> True)
            then Inl InvalidPrice
          else if \<not> dateRegex_test P (get_prop priceObj ''start_date'') then Inl InvalidStartDate
          else if truthy (get_prop priceObj ''end_date'')
                  \<and> \<not> dateRegex_test P (get_prop priceObj ''end_date'')
            then Inl InvalidEndDate
          else Inr ())"

text \<open>The first failing check of a loop over a list decides.\<close>

fun for_each :: "('a \<Rightarrow> error + unit) \<Rightarrow> 'a list \<Rightarrow> error + unit" where
  "for_each check [] = Inr ()"
| "for_each check (x # xs) = (case check x of Inl e \<Rightarrow> Inl e | Inr _ \<Rightarrow> for_each check xs)"

definition subscription_check :: "primitives \<Rightarrow> jsval \<Rightarrow> error + unit" where
  "subscription_check P price =
     (if get_prop price ''hour_slots'' \<noteq> Null then Inl SubscriptionHourSlots
      else if get_prop price ''day_type'' \<noteq> Null then Inl SubscriptionDayType
      else if number_le_zero (ToNumber P (get_prop price ''price'')) then Inl SubscriptionNotPositive
      else Inr ())"

definition consumption_check :: "string \<Rightarrow> jsval \<Rightarrow> error + unit" where
  "consumption_check contractType price =
     (if contractType = ''edf-base'' then
        (if get_prop price ''hour_slots'' \<noteq> Null then Inl BaseHourSlots
         else if get_prop price ''day_type'' \<noteq> Null then Inl BaseDayType
         else Inr ())
      else if contractType = ''edf-peak-off-peak'' then
        (if get_prop price ''hour_slots'' \<notin> {Str ''TO_REPLACE_PEAK'', Str ''TO_REPLACE_OFF_PEAK''}
           then Inl PeakOffPeakHourSlots
         else if get_prop price ''day_type'' \<noteq> Null then Inl PeakOffPeakDayType
         else Inr ())
      else if contractType = ''edf-tempo'' then
        (if get_prop price ''day_type'' \<notin> {Str ''blue'', Str ''white'', Str ''red''}
           then Inl TempoDayType
         else if (case get_prop price ''hour_slots'' of Str s \<Rightarrow> s = [] | _ \<Rightarrow> True)
           then Inl TempoHourSlots
         else Inr ())
      else Inr ())"

text \<open>
  \<open>validateContractSpecificRequirements(prices, contractType)\<close>. Reading \<open>p.price_type\<close>
  in the first filter throws on a \<open>null\<close> or \<open>undefined\<close> element.
\<close>

definition validateContractSpecificRequirements ::
  "primitives \<Rightarrow> jsval list \<Rightarrow> string \<Rightarrow> error + unit" where
  "validateContractSpecificRequirements P prices contractType =
     (if list_ex (\<lambda>p. p = Null \<or> p = Undefined) prices then Inl TypeError
      else
        let consumptionPrices = filter (\<lambda>p. get_prop p ''price_type'' = Str ''consumption'') prices;
            subscriptionPrices = filter (\<lambda>p. get_prop p ''price_type'' = Str ''subscription'') prices
        in if subscriptionPrices = [] then Inl MustHaveSubscription
           else
             (case for_each (subscription_check P) subscriptionPrices of
                Inl e \<Rightarrow> Inl e
              | Inr _ \<Rightarrow> for_each (consumption_check contractType) consumptionPrices))"

subsection \<open>The test run\<close>

text \<open>\<open>Object.keys(v)\<close> with the value under each key, for a value whose \<open>typeof\<close> is \<open>object\<close>.\<close>

fun own_entries :: "jsval \<Rightarrow> (string \<times> jsval) list" where
  "own_entries (Obj kvs) = kvs"
| "own_entries (Arr xs) = zip (map nat_to_string [0..<length xs]) xs"
| "own_entries v = []"

text \<open>\<open>typeof v !== "object" || v === null\<close>\<close>

fun not_object :: "jsval \<Rightarrow> bool" where
  "not_object (Obj kvs) = False"
| "not_object (Arr xs) = False"
| "not_object v = True"

text \<open>Step 5 for one power level: the array checks, every price object, the contract rules.\<close>

definition validate_power :: "primitives \<Rightarrow> string \<Rightarrow> string \<times> jsval \<Rightarrow> error + unit" where
  "validate_power P contractType entry =
     (case snd entry of
        Arr prices \<Rightarrow>
          if prices = [] then Inl PricesEmpty
          else
            (case for_each
                    (\<lambda>p. case validatePriceObject P p of
                            Inl e \<Rightarrow> Inl (PriceValidationFailed e)
                          | Inr u \<Rightarrow> Inr u)
                    prices of
               Inl e \<Rightarrow> Inl e
             | Inr _ \<Rightarrow> validateContractSpecificRequirements P prices contractType)
      | _ \<Rightarrow> Inl PricesNotArray)"

definition validate_contract :: "primitives \<Rightarrow> string \<times> jsval \<Rightarrow> error + unit" where
  "validate_contract P entry =
     (if not_object (snd entry) then Inl ContractNotObject
      else for_each (validate_power P (fst entry)) (own_entries (snd entry)))"

text \<open>\<open>`${p.start_date}|${p.end_date}`\<close>\<close>

definition date_range :: "primitives \<Rightarrow> jsval \<Rightarrow> string" where
  "date_range P p =
     ToString P (get_prop p ''start_date'') @ ''|'' @ ToString P (get_prop p ''end_date'')"

text \<open>
  Step 7 for one power level. The price arrays have passed step 5 when it runs; the
  model gives the elements of an array and no element for anything else.
\<close>

fun elements :: "jsval \<Rightarrow> jsval list" where
  "elements (Arr xs) = xs"
| "elements v = []"

definition consistency_power :: "primitives \<Rightarrow> string \<times> jsval \<Rightarrow> error + unit" where
  "consistency_power P entry =
     (let prices = elements (snd entry);
          subscriptionPrices = filter (\<lambda>p. get_prop p ''price_type'' = Str ''subscription'') prices;
          consumptionPrices = filter (\<lambda>p. get_prop p ''price_type'' = Str ''consumption'') prices;
          consumptionDateRanges = remdups (map (date_range P) consumptionPrices);
          subscriptionDateRanges = set (map (date_range P) subscriptionPrices)
      in for_each
           (\<lambda>dateRange. if dateRange \<notin> subscriptionDateRanges
                         then Inl MissingSubscriptionForDateRange else Inr ())
           consumptionDateRanges)"

definition consistency_contract :: "primitives \<Rightarrow> string \<times> jsval \<Rightarrow> error + unit" where
  "consistency_contract P entry = for_each (consistency_power P) (own_entries (snd entry))"

definition expectedContracts :: "string list" where
  "expectedContracts = [''edf-base'', ''edf-peak-off-peak'', ''edf-tempo'']"

text \<open>Step 8: the number of subscription prices in the whole aggregate.\<close>

definition totalSubscription :: "jsval \<Rightarrow> nat" where
  "totalSubscription contractsData =
     sum_list
       (map (\<lambda>contract.
               sum_list
                 (map (\<lambda>power.
                         length (filter (\<lambda>p. get_prop p ''price_type'' = Str ''subscription'')
                                   (elements (snd power))))
                    (own_entries (snd contract))))
          (own_entries contractsData))"

text \<open>
  \<open>runTests\<close> from its step 4 on, given what \<open>JSON.parse\<close> made of \<open>contracts.json\<close>.
  An error is what the \<open>catch\<close> reports before the process exits with status 1.
\<close>

definition runTests :: "primitives \<Rightarrow> jsval \<Rightarrow> error + unit" where
  "runTests P contractsData =
     (if not_object contractsData then Inl RootNotObject
      else
        (case for_each (validate_contract P) (own_entries contractsData) of
           Inl e \<Rightarrow> Inl e
         | Inr _ \<Rightarrow>
             (case for_each
                     (\<lambda>expected. if expected \<notin> set (map fst (own_entries contractsData))
                                  then Inl (ExpectedContractMissing expected) else Inr ())
                     expectedContracts of
                Inl e \<Rightarrow> Inl e
              | Inr _ \<Rightarrow>
                  (case for_each (consistency_contract P) (own_entries contractsData) of
                     Inl e \<Rightarrow> Inl e
                   | Inr _ \<Rightarrow>
                       if totalSubscription contractsData = 0 then Inl NoSubscriptionPrices
                       else Inr ()))))"

section \<open>Notions of the specification\<close>

text \<open>
  These definitions follow the words of the specification; the theorems compare them
  with what the code computes.
\<close>

text \<open>Rounding to the nearest integer, a tie going away from zero.\<close>

definition round_half_away_from_zero :: "rat \<Rightarrow> int" where
  "round_half_away_from_zero x = (if 0 \<le> x then \<lfloor>x + 1 / 2\<rfloor> else - \<lfloor>- x + 1 / 2\<rfloor>)"

text \<open>The half-hour marks of a day, \<open>00:00\<close> being mark 0 and \<open>23:30\<close> mark 47.\<close>

definition two_digits :: "nat \<Rightarrow> string" where
  "two_digits n = [digit_char (n div 10), digit_char (n mod 10)]"

definition half_hour_mark :: "nat \<Rightarrow> string" where
  "half_hour_mark i = two_digits (i div 2) @ '':'' @ two_digits (30 * (i mod 2))"

text \<open>The pair of dates of a price object.\<close>

definition date_pair :: "jsval \<Rightarrow> jsval \<times> jsval" where
  "date_pair p = (get_prop p ''start_date'', get_prop p ''end_date'')"


text \<open>The text of a column of a data row; empty when the row has no such column.\<close>

definition column :: "string list \<Rightarrow> nat \<Rightarrow> string" where
  "column columns i = (case nth_opt columns i of None \<Rightarrow> [] | Some s \<Rightarrow> s)"

text \<open>
  A well-formed row of the calendar-tiered file: the power level, the start date, the
  six variable-price columns and the subscription column are not empty.
\<close>

definition tempo_well_formed :: "tempo_columns \<Rightarrow> string list \<Rightarrow> bool" where
  "tempo_well_formed ix columns =
     list_all (\<lambda>i. column columns i \<noteq> [])
       [pSouscriteIndex ix, dateDebutIndex ix,
        partVariableHcBleuTtcIndex ix, partVariableHpBleuTtcIndex ix,
        partVariableHcBlancTtcIndex ix, partVariableHpBlancTtcIndex ix,
        partVariableHcRougeTtcIndex ix, partVariableHpRougeTtcIndex ix,
        partFixeTtcIndex ix]"

text \<open>The dates of a row carry their separator: the start date, and the end date if there is one.\<close>

definition dates_separated :: "string \<Rightarrow> string \<Rightarrow> bool" where
  "dates_separated startDate endDate =
     (CHR ''/'' \<in> set startDate \<and> (endDate = [] \<or> CHR ''/'' \<in> set endDate))"



text \<open>Every price object of a converter's result names a contract the validator knows.\<close>

definition known_contracts :: "result \<Rightarrow> bool" where
  "known_contracts res =
     (\<forall>k ps. res k = Some ps \<longrightarrow>
        list_all (\<lambda>r. get_prop r ''contract'' \<in> Str ` set validContracts) ps)"

text \<open>
  A store without dangling references: every reference held by a cell points to a cell
  of the store. A value is valid in a store when it is no reference or points to one
  of its cells. \<open>JSON.parse\<close> leaves such a store and such values.
\<close>

definition h_valid :: "heap \<Rightarrow> hval \<Rightarrow> bool" where
  "h_valid h v = (case v of Ref a \<Rightarrow> a < length h | _ \<Rightarrow> True)"

fun cell_vals :: "cell \<Rightarrow> hval list" where
  "cell_vals (ArrCell vs) = vs"
| "cell_vals (ObjCell kvs) = map snd kvs"

definition closed :: "heap \<Rightarrow> bool" where
  "closed h = list_all (\<lambda>c. list_all (h_valid h) (cell_vals c)) h"

text \<open>The elements of an array of the store; any other value has none.\<close>

definition array_elements :: "heap \<Rightarrow> hval \<Rightarrow> hval list" where
  "array_elements h v =
     (case v of
        Ref a \<Rightarrow> (case cell_at h a of Some (ArrCell vs) \<Rightarrow> vs | _ \<Rightarrow> [])
      | _ \<Rightarrow> [])"

text \<open>
  The cells that make up the list of consumption prices bound to a power level, for a
  catalog of \<open>n\<close> entries: the cell of the array, and the cells its first \<open>n\<close> elements
  refer to.
\<close>

definition list_cells :: "heap \<Rightarrow> nat \<Rightarrow> hval \<Rightarrow> addr list" where
  "list_cells h n v =
     (case v of
        Ref a \<Rightarrow>
          a # concat (map (\<lambda>x. case x of Ref b \<Rightarrow> [b] | _ \<Rightarrow> []) (take n (array_elements h v)))
      | _ \<Rightarrow> [])"

text \<open>
  What a reader finds, to the depth \<open>k\<close>, in the object \<open>{...e}\<close> made from a value \<open>e\<close> of
  the store \<open>h\<close>: the own properties of \<open>e\<close>, each with the value it has in \<open>h\<close>.
\<close>

fun spread :: "nat \<Rightarrow> heap \<Rightarrow> hval \<Rightarrow> jsval" where
  "spread 0 h e = Undefined"
| "spread (Suc k) h e = Obj (map (\<lambda>(name, v). (name, reify k h v)) (own_props h e))"

text \<open>
  The lists of a result are fresh copies of the catalog: the list bound to a power
  level is an array whose first elements are as many distinct new objects as the
  catalog has entries, none of them a cell of the store \<open>h0\<close> the converter started from,
  and each reads as the spread of the catalog entry at its place.
\<close>

definition fresh_lists :: "heap \<Rightarrow> hval \<Rightarrow> hresult \<Rightarrow> heap \<Rightarrow> bool" where
  "fresh_lists h0 contractData result h =
     (\<forall>p vp. result p = Some vp \<longrightarrow>
        length (list_cells h (length (array_elements h0 contractData)) vp)
          = Suc (length (array_elements h0 contractData))
      \<and> distinct (list_cells h (length (array_elements h0 contractData)) vp)
      \<and> (\<forall>w \<in> set (list_cells h (length (array_elements h0 contractData)) vp).
            length h0 \<le> w \<and> w < length h)
      \<and> (\<forall>k. take (length (array_elements h0 contractData)) (elements (reify (Suc k) h vp))
               = map (spread k h0) (array_elements h0 contractData)))"

text \<open>
  Isolation of the lists of a result: the lists bound to two different power levels
  have no cell in common, and whatever is written into a cell of one of them, the other
  reads as before, to every depth.
\<close>

definition isolated :: "heap \<Rightarrow> hval \<Rightarrow> hresult \<Rightarrow> heap \<Rightarrow> bool" where
  "isolated h0 contractData result h =
     (\<forall>p q vp vq. p \<noteq> q \<and> result p = Some vp \<and> result q = Some vq \<longrightarrow>
        set (list_cells h (length (array_elements h0 contractData)) vp)
          \<inter> set (list_cells h (length (array_elements h0 contractData)) vq) = {}
      \<and> (\<forall>w \<in> set (list_cells h (length (array_elements h0 contractData)) vp).
            \<forall>c k. reify k (h[w := c]) vq = reify k h vq))"

subsection \<open>The invariant of the loops over the power levels\<close>

text \<open>
  The array at \<open>a\<close> holds references to the cells \<open>cs\<close>, one new object for each catalog
  entry with the own properties of that entry, followed by values of the store \<open>h0\<close>.
\<close>

definition fresh_copies :: "heap \<Rightarrow> hval list \<Rightarrow> heap \<Rightarrow> addr \<Rightarrow> bool" where
  "fresh_copies h0 entries h a =
     (\<exists>cs rest.
        cell_at h a = Some (ArrCell (map Ref cs @ rest))
      \<and> length cs = length entries \<and> distinct cs
      \<and> length h0 \<le> a \<and> (\<forall>x \<in> set cs. length h0 \<le> x \<and> x < a)
      \<and> (\<forall>i < length entries. cell_at h (cs ! i) = Some (ObjCell (own_props h0 (entries ! i))))
      \<and> list_all (h_valid h0) rest)"

definition loop_inv :: "heap \<Rightarrow> hval list \<Rightarrow> hresult \<Rightarrow> heap \<Rightarrow> bool" where
  "loop_inv h0 entries result h =
     ((\<exists>ext. h = h0 @ ext)
      \<and> (\<forall>p v. result p = Some v \<longrightarrow> (\<exists>a. v = Ref a \<and> fresh_copies h0 entries h a))
      \<and> (\<forall>p q vp vq. p \<noteq> q \<and> result p = Some vp \<and> result q = Some vq \<longrightarrow>
            set (list_cells h (length entries) vp) \<inter> set (list_cells h (length entries) vq) = {}))"

subsection \<open>An example store\<close>

text \<open>
  A catalog of one consumption record, a catalog of one subscription record, and a
  subscription table binding the power levels \<open>3\<close> and \<open>6\<close> to the second.
\<close>

definition example_store :: heap where
  "example_store =
     [ObjCell [(''price_type'', HStr ''consumption''), (''price'', HNum (Fin 1))],
      ArrCell [Ref 0],
      ObjCell [(''contract'', HStr ''base''), (''price_type'', HStr ''subscription''),
               (''currency'', HStr ''euro''), (''start_date'', HStr ''2024-01-01''),
               (''end_date'', HNull), (''price'', HNum (Fin 1)),
               (''hour_slots'', HNull), (''day_type'', HNull)],
      ArrCell [Ref 2],
      ObjCell [(''3'', Ref 3), (''6'', Ref 3)]]"

section \<open>Properties of the number model\<close>

lemma pow2_powi: "pow2 k = 2 powi k"
  by (simp add: pow2_def power_int_def inverse_eq_divide power_one_over)

lemma pow2_pos: "0 < pow2 k"
  by (simp add: pow2_powi)

lemma pow2_add: "pow2 (a + b) = pow2 a * pow2 b"
  by (simp add: pow2_powi power_int_add)

lemma pow2_mono: "a \<le> b \<Longrightarrow> pow2 a \<le> pow2 b"
  by (simp add: pow2_powi power_int_increasing)

lemma pow2_strict_mono: "a < b \<Longrightarrow> pow2 a < pow2 b"
  by (simp add: pow2_powi power_int_strict_increasing)

lemma bit_length_bounds: "0 < n \<Longrightarrow> 2 ^ (bit_length n - 1) \<le> n \<and> n < 2 ^ bit_length n"
proof (induction n rule: bit_length.induct)
  case (1 n)
  show ?case
  proof (cases "n div 2 = 0")
    case True
    with "1.prems" have "n = 1" by presburger
    then show ?thesis by (simp add: bit_length.simps)
  next
    case False
    then have pos: "0 < n div 2" by simp
    from "1.IH" [OF _ pos] "1.prems"
    have ih: "2 ^ (bit_length (n div 2) - 1) \<le> n div 2" "n div 2 < 2 ^ bit_length (n div 2)"
      by auto
    have bl: "bit_length n = Suc (bit_length (n div 2))"
      using "1.prems" by (subst bit_length.simps) simp
    have pos_bl: "0 < bit_length (n div 2)"
      using pos by (subst bit_length.simps) simp
    then obtain b where b: "bit_length (n div 2) = Suc b"
      by (cases "bit_length (n div 2)") auto
    from ih b have "2 * 2 ^ b \<le> 2 * (n div 2)" by simp
    also have "\<dots> \<le> n" by presburger
    finally have lo: "2 ^ (bit_length n - 1) \<le> n" by (simp add: bl b)
    from ih(2) have "n div 2 + 1 \<le> 2 ^ bit_length (n div 2)" by simp
    then have "2 * (n div 2) + 2 \<le> 2 * 2 ^ bit_length (n div 2)" by simp
    moreover have "n < 2 * (n div 2) + 2" by presburger
    ultimately have hi: "n < 2 ^ bit_length n" by (simp add: bl)
    from lo hi show ?thesis ..
  qed
qed

lemma bit_length_pos: "0 < n \<Longrightarrow> 0 < bit_length n"
  by (subst bit_length.simps) simp

lemma ilog2_bounds:
  assumes "0 < a"
  shows "pow2 (ilog2 a) \<le> a \<and> a < pow2 (ilog2 a + 1)"
proof (cases "1 \<le> a")
  case True
  define n where "n = nat \<lfloor>a\<rfloor>"
  have fl: "1 \<le> \<lfloor>a\<rfloor>" using True by simp
  then have npos: "0 < n" by (simp add: n_def)
  have n_le: "of_nat n \<le> a"
    using fl by (simp add: n_def of_nat_nat)
  have a_lt: "a < of_nat n + 1"
  proof -
    have "(of_nat n :: rat) = of_int \<lfloor>a\<rfloor>" using fl by (simp add: n_def)
    then show ?thesis by linarith
  qed
  from bit_length_bounds [OF npos]
  have lo: "2 ^ (bit_length n - 1) \<le> n" and hi: "n < 2 ^ bit_length n" by auto
  from bit_length_pos [OF npos] obtain b where b: "bit_length n = Suc b"
    by (cases "bit_length n") auto
  have e: "ilog2 a = int b"
    using True by (simp add: ilog2_def n_def [symmetric] b)
  have r1: "(2::rat) ^ b \<le> of_nat n"
    using lo b by (metis diff_Suc_1 of_nat_le_iff of_nat_numeral of_nat_power)
  have p1: "pow2 (ilog2 a) = 2 ^ b" by (simp add: e pow2_def)
  have 1: "pow2 (ilog2 a) \<le> a"
    unfolding p1 using r1 n_le by linarith
  have "n + 1 \<le> 2 ^ Suc b" using hi b by simp
  then have "(of_nat (n + 1) :: rat) \<le> of_nat (2 ^ Suc b)"
    by (simp only: of_nat_le_iff)
  then have r2: "(of_nat n :: rat) + 1 \<le> 2 ^ Suc b" by simp
  have p2: "pow2 (ilog2 a + 1) = 2 ^ Suc b" by (simp add: e pow2_def nat_add_distrib)
  have 2: "a < pow2 (ilog2 a + 1)"
    unfolding p2 using r2 a_lt by linarith
  from 1 2 show ?thesis ..
next
  case False
  define t where "t = 1 / a"
  have t1: "1 < t" using False assms by (simp add: t_def)
  define n where "n = nat (\<lceil>t\<rceil> - 1)"
  have c2: "2 \<le> \<lceil>t\<rceil>" using t1 by (simp add: le_ceiling_iff)
  then have npos: "0 < n" by (simp add: n_def)
  have n_eq: "(of_nat n :: rat) = of_int \<lceil>t\<rceil> - 1"
    using c2 by (simp add: n_def of_nat_nat)
  have n_lt: "of_nat n < t"
    unfolding n_eq using ceiling_correct [of t] by linarith
  have t_le: "t \<le> of_nat n + 1"
    unfolding n_eq using ceiling_correct [of t] by linarith
  from bit_length_bounds [OF npos]
  have lo: "2 ^ (bit_length n - 1) \<le> n" and hi: "n < 2 ^ bit_length n" by auto
  from bit_length_pos [OF npos] obtain b where b: "bit_length n = Suc b"
    by (cases "bit_length n") auto
  have e: "ilog2 a = - int (Suc b)"
    using False by (simp add: ilog2_def t_def [symmetric] n_def [symmetric] b)
  have r1: "(2::rat) ^ b \<le> of_nat n"
    using lo b by (metis diff_Suc_1 of_nat_le_iff of_nat_numeral of_nat_power)
  have tb: "2 ^ b < t" using r1 n_lt by linarith
  have "n + 1 \<le> 2 ^ Suc b" using hi b by simp
  then have "(of_nat (n + 1) :: rat) \<le> of_nat (2 ^ Suc b)"
    by (simp only: of_nat_le_iff)
  then have r2: "(of_nat n :: rat) + 1 \<le> 2 ^ Suc b" by simp
  have tb': "t \<le> 2 ^ Suc b" using r2 t_le by linarith
  have a_eq: "a = 1 / t" by (simp add: t_def)
  have tpos: "0 < t" using t1 by simp
  have "nat (int b + 1) = Suc b" by simp
  then have p1: "pow2 (ilog2 a) = 1 / 2 ^ Suc b" by (simp add: e pow2_def)
  have h1: "1 / 2 ^ Suc b \<le> 1 / t"
    using tb' tpos by (intro divide_left_mono) auto
  have 1: "pow2 (ilog2 a) \<le> a"
    using h1 p1 a_eq by linarith
  have p2: "pow2 (ilog2 a + 1) = 1 / 2 ^ b" by (simp add: e pow2_def)
  have h2: "1 / t < 1 / 2 ^ b"
    using tb tpos by (intro divide_strict_left_mono) auto
  have 2: "a < pow2 (ilog2 a + 1)"
    using h2 p2 a_eq by linarith
  from 1 2 show ?thesis ..
qed

lemma ilog2_unique:
  assumes "pow2 e \<le> a" and "a < pow2 (e + 1)"
  shows "ilog2 a = e"
proof -
  have apos: "0 < a" using assms(1) pow2_pos [of e] by linarith
  from ilog2_bounds [OF apos]
  have lo: "pow2 (ilog2 a) \<le> a" and hi: "a < pow2 (ilog2 a + 1)" by auto
  have "\<not> ilog2 a < e"
  proof
    assume "ilog2 a < e"
    then have "pow2 (ilog2 a + 1) \<le> pow2 e" by (intro pow2_mono) simp
    with hi assms(1) show False by linarith
  qed
  moreover have "\<not> e < ilog2 a"
  proof
    assume "e < ilog2 a"
    then have "pow2 (e + 1) \<le> pow2 (ilog2 a)" by (intro pow2_mono) simp
    with lo assms(2) show False by linarith
  qed
  ultimately show ?thesis by simp
qed

lemma round_half_even_near:
  assumes "\<bar>x - of_int m\<bar> < 1 / 2"
  shows "round_half_even x = m"
proof (cases "of_int m \<le> x")
  case True
  with assms have "\<lfloor>x\<rfloor> = m" by (intro floor_unique) auto
  with assms True show ?thesis by (simp add: round_half_even_def Let_def)
next
  case False
  with assms have f: "\<lfloor>x\<rfloor> = m - 1" by (intro floor_unique) auto
  have "1 / 2 < x - of_int (m - 1)" using assms False by simp
  with f show ?thesis by (simp add: round_half_even_def Let_def)
qed

lemma round_half_even_error: "\<bar>of_int (round_half_even x) - x\<bar> \<le> 1 / 2"
proof -
  have "of_int \<lfloor>x\<rfloor> \<le> x" "x < of_int \<lfloor>x\<rfloor> + 1" by linarith+
  then show ?thesis
    by (auto simp: round_half_even_def Let_def)
qed


lemma to_double_pos:
  assumes "pow2 e \<le> a" and "a < pow2 (e + 1)" and "- 1022 \<le> e"
    and "\<bar>a / pow2 (e - 52) - of_int m\<bar> < 1 / 2"
    and "of_int m * pow2 (e - 52) < pow2 1024"
  shows "to_double a = Fin (of_int m * pow2 (e - 52))"
proof -
  have apos: "0 < a" using assms(1) pow2_pos [of e] by linarith
  have il: "ilog2 a = e" using assms(1,2) by (rule ilog2_unique)
  have mx: "max (ilog2 a) (- 1022) = e" using il assms(3) by simp
  have rd: "round_half_even (a / pow2 (e - 52)) = m"
    using assms(4) by (rule round_half_even_near)
  show ?thesis
    using apos assms(5) by (simp add: to_double_def Let_def mx rd)
qed

lemma to_double_neg:
  assumes "pow2 e \<le> a" and "a < pow2 (e + 1)" and "- 1022 \<le> e"
    and "\<bar>a / pow2 (e - 52) - of_int m\<bar> < 1 / 2"
    and "of_int m * pow2 (e - 52) < pow2 1024"
  shows "to_double (- a) = Fin (- (of_int m * pow2 (e - 52)))"
proof -
  have apos: "0 < a" using assms(1) pow2_pos [of e] by linarith
  have il: "ilog2 a = e" using assms(1,2) by (rule ilog2_unique)
  have mx: "max (ilog2 a) (- 1022) = e" using il assms(3) by simp
  have rd: "round_half_even (a / pow2 (e - 52)) = m"
    using assms(4) by (rule round_half_even_near)
  show ?thesis
    using apos assms(5) by (simp add: to_double_def Let_def mx rd)
qed

lemma round_half_even_of_int: "round_half_even (of_int j) = j"
  by (rule round_half_even_near) simp

lemma to_double_nat_pos:
  assumes "0 < n" and "n < 2 ^ 53"
  shows "to_double (of_int n) = Fin (of_int n)"
    and "to_double (- of_int n) = Fin (- of_int n)"
proof -
  define a :: rat where "a = of_int n"
  have apos: "0 < a" using assms(1) by (simp add: a_def)
  have a1: "1 \<le> a" using assms(1) by (simp add: a_def)
  define e where "e = ilog2 a"
  from ilog2_bounds [OF apos] have lo: "pow2 e \<le> a" and hi: "a < pow2 (e + 1)"
    by (auto simp: e_def)
  have e0: "0 \<le> e"
  proof (rule ccontr)
    assume "\<not> 0 \<le> e"
    then have "pow2 (e + 1) \<le> pow2 0" by (intro pow2_mono) simp
    with hi a1 show False by (simp add: pow2_def)
  qed
  have a53: "a < pow2 53"
  proof -
    have "(of_int n :: rat) < of_int (2 ^ 53)" using assms(2) by (simp only: of_int_less_iff)
    then show ?thesis by (simp add: a_def pow2_def)
  qed
  have e52: "e \<le> 52"
  proof (rule ccontr)
    assume "\<not> e \<le> 52"
    then have "pow2 53 \<le> pow2 e" by (intro pow2_mono) simp
    with lo a53 show False by linarith
  qed
  define d where "d = nat (52 - e)"
  have q: "pow2 (e - 52) = 1 / 2 ^ d"
    using e52 by (cases "e = 52") (simp_all add: pow2_def d_def)
  have quot: "a / pow2 (e - 52) = of_int (n * 2 ^ d)"
    by (simp add: q a_def)
  have near: "\<bar>a / pow2 (e - 52) - of_int (n * 2 ^ d)\<bar> < 1 / 2"
    by (simp add: quot)
  have restore: "of_int (n * 2 ^ d) * pow2 (e - 52) = a"
    by (simp add: q a_def)
  have small: "of_int (n * 2 ^ d) * pow2 (e - 52) < pow2 1024"
  proof -
    have "pow2 53 \<le> pow2 1024" by (intro pow2_mono) simp
    with a53 restore show ?thesis by linarith
  qed
  have m1022: "- 1022 \<le> e" using e0 by simp
  have "to_double a = Fin (of_int (n * 2 ^ d) * pow2 (e - 52))"
    by (rule to_double_pos [OF lo hi m1022 near small])
  then show "to_double (of_int n) = Fin (of_int n)"
    by (simp only: restore) (simp add: a_def)
  have "to_double (- a) = Fin (- (of_int (n * 2 ^ d) * pow2 (e - 52)))"
    by (rule to_double_neg [OF lo hi m1022 near small])
  then show "to_double (- of_int n) = Fin (- of_int n)"
    by (simp only: restore) (simp add: a_def)
qed

lemma to_double_int:
  assumes "\<bar>n\<bar> < 2 ^ 53"
  shows "to_double (of_int n) = Fin (of_int n)"
proof -
  consider "n = 0" | "0 < n" | "n < 0" by linarith
  then show ?thesis
  proof cases
    case 1
    then show ?thesis by (simp add: to_double_def)
  next
    case 2
    with assms show ?thesis by (intro to_double_nat_pos(1)) auto
  next
    case 3
    with assms have "to_double (- of_int (- n)) = Fin (- of_int (- n))"
      by (intro to_double_nat_pos(2)) auto
    then show ?thesis by simp
  qed
qed

lemma Math_round_Fin:
  "\<exists>k. Math_round (Fin y) = Fin (of_int k)
       \<and> \<bar>of_int k - y\<bar> \<le> 1 / 2
       \<and> (\<bar>of_int k - y\<bar> = 1 / 2 \<longrightarrow> y < of_int k)
       \<and> (0 \<le> y \<longrightarrow> k = round_half_away_from_zero y)
       \<and> (y < 0 \<and> \<bar>of_int k - y\<bar> = 1 / 2 \<longrightarrow> k = round_half_away_from_zero y + 1)"
proof -
  define k where "k = \<lfloor>y + 1 / 2\<rfloor>"
  have b: "of_int k \<le> y + 1 / 2" "y + 1 / 2 < of_int k + 1"
    unfolding k_def by linarith+
  have 1: "Math_round (Fin y) = Fin (of_int k)" by (simp add: k_def)
  have 2: "\<bar>of_int k - y\<bar> \<le> 1 / 2" using b by linarith
  have 3: "\<bar>of_int k - y\<bar> = 1 / 2 \<longrightarrow> y < of_int k" using b by linarith
  have 4: "0 \<le> y \<longrightarrow> k = round_half_away_from_zero y"
    by (simp add: round_half_away_from_zero_def k_def)
  have 5: "y < 0 \<and> \<bar>of_int k - y\<bar> = 1 / 2 \<longrightarrow> k = round_half_away_from_zero y + 1"
  proof
    assume h: "y < 0 \<and> \<bar>of_int k - y\<bar> = 1 / 2"
    with b have ky: "of_int k = y + 1 / 2" by linarith
    have "- y + 1 / 2 = of_int (1 - k)" using ky by simp
    then have "\<lfloor>- y + 1 / 2\<rfloor> = 1 - k" by (simp only: floor_of_int)
    with h show "k = round_half_away_from_zero y + 1"
      by (simp add: round_half_away_from_zero_def)
  qed
  from 1 2 3 4 5 show ?thesis by blast
qed

section \<open>Properties of the string functions\<close>

lemma split_on_not_Nil: "split_on c s \<noteq> []"
  by (induction s) (auto split: list.splits)

lemma split_on_no_separator: "c \<notin> set s \<Longrightarrow> split_on c s = [s]"
  by (induction s) auto

lemma length_split_on: "length (split_on c s) = Suc (count_list s c)"
  by (induction s) (auto split: list.splits simp: split_on_not_Nil)

lemma split_on_separator: "c \<in> set s \<Longrightarrow> \<exists>a b rest. split_on c s = a # b # rest"
proof (induction s)
  case Nil
  then show ?case by simp
next
  case (Cons x xs)
  show ?case
  proof (cases "x = c")
    case True
    obtain p ps where "split_on c xs = p # ps"
      using split_on_not_Nil [of c xs] by (cases "split_on c xs") auto
    with True show ?thesis by simp
  next
    case False
    with Cons.prems have "c \<in> set xs" by simp
    from Cons.IH [OF this] obtain a b rest where "split_on c xs = a # b # rest" by blast
    with False show ?thesis by simp
  qed
qed

lemma dateRegex_first_digit: "dateRegex (x # xs) \<Longrightarrow> is_digit x"
  by (cases "x # xs" rule: dateRegex.cases) auto

lemma indexOf_None_iff: "indexOf xs x = None \<longleftrightarrow> x \<notin> set xs"
  by (induction xs) auto

section \<open>Date conversion\<close>

lemma convertToIsoDate_no_separator:
  "s \<noteq> [] \<Longrightarrow> CHR ''/'' \<notin> set s \<Longrightarrow> convertToIsoDate (Some s) = Inl TypeError"
  by (simp add: convertToIsoDate_def split_on_no_separator)

lemma convertToIsoDate_with_separator:
  assumes "s \<noteq> []" and "CHR ''/'' \<in> set s"
  shows "\<exists>iso. convertToIsoDate (Some s) = Inr (Str iso)"
proof -
  from assms(2) obtain a b rest where "split_on CHR ''/'' s = a # b # rest"
    using split_on_separator by blast
  with assms(1) show ?thesis by (simp add: convertToIsoDate_def)
qed

text \<open>
  Claim C2, as the code has it. For a non-empty date string, \<open>convertToIsoDate\<close>
  raises a TypeError when the string holds no \<open>/\<close> (the month is \<open>undefined\<close>), and
  returns a string whenever it holds at least one. With exactly one \<open>/\<close> the year is
  missing, the string returned starts with the text \<open>undefined\<close>, and the validator's
  date pattern rejects it: only there is the validator the enforcement point.
\<close>

theorem convertToIsoDate_separator:
  assumes "s \<noteq> []"
  shows "(CHR ''/'' \<notin> set s \<longrightarrow> convertToIsoDate (Some s) = Inl TypeError)
       \<and> (CHR ''/'' \<in> set s \<longrightarrow> (\<exists>iso. convertToIsoDate (Some s) = Inr (Str iso)))
       \<and> (count_list s CHR ''/'' = 1 \<longrightarrow>
            (\<exists>iso. convertToIsoDate (Some s) = Inr (Str iso) \<and> \<not> dateRegex iso))"
proof (intro conjI impI)
  assume "CHR ''/'' \<notin> set s"
  with assms show "convertToIsoDate (Some s) = Inl TypeError"
    by (rule convertToIsoDate_no_separator)
next
  assume "CHR ''/'' \<in> set s"
  with assms show "\<exists>iso. convertToIsoDate (Some s) = Inr (Str iso)"
    by (rule convertToIsoDate_with_separator)
next
  assume "count_list s CHR ''/'' = 1"
  then have "length (split_on CHR ''/'' s) = 2" by (simp add: length_split_on)
  then obtain a b where ab: "split_on CHR ''/'' s = [a, b]"
    by (auto simp: numeral_2_eq_2 length_Suc_conv)
  have u: "\<not> is_digit CHR ''u''" by (simp add: is_digit_def)
  have "\<not> dateRegex (CHR ''u'' # ''ndefined'' @ ''-'' @ padStart2 b @ ''-'' @ padStart2 a)"
    using u dateRegex_first_digit by blast
  then have "\<not> dateRegex (''undefined'' @ ''-'' @ padStart2 b @ ''-'' @ padStart2 a)"
    by simp
  with assms ab
  show "\<exists>iso. convertToIsoDate (Some s) = Inr (Str iso) \<and> \<not> dateRegex iso"
    by (simp add: convertToIsoDate_def)
qed

theorem convertToIsoDate_separator_witness:
  "''05/2024'' \<noteq> [] \<and> count_list ''05/2024'' CHR ''/'' = 1
   \<and> (\<exists>iso. convertToIsoDate (Some ''05/2024'') = Inr (Str iso) \<and> \<not> dateRegex iso)"
  using convertToIsoDate_separator [of "''05/2024''"] by simp

text \<open>
  Claim C2 as stated fails: a non-empty date without a separator makes the conversion
  raise instead of returning a value.
\<close>

theorem convertToIsoDate_raises: "convertToIsoDate (Some ''01012023'') = Inl TypeError"
  by (simp add: convertToIsoDate_def)

section \<open>Missing headers\<close>

lemma processBaseOptions_missing:
  "indexOf (csv_headers c) ''DATE_DEBUT'' = None \<or> indexOf (csv_headers c) ''DATE_FIN'' = None
   \<or> indexOf (csv_headers c) ''P_SOUSCRITE'' = None
   \<or> indexOf (csv_headers c) ''PART_VARIABLE_TTC'' = None
   \<or> indexOf (csv_headers c) ''PART_FIXE_TTC'' = None
   \<Longrightarrow> processBaseOptions c = Inl RequiredColumnsNotFound"
  by (auto simp: processBaseOptions_def Let_def split: option.splits)

lemma processPeakOffPeakOptions_missing:
  "indexOf (csv_headers c) ''DATE_DEBUT'' = None \<or> indexOf (csv_headers c) ''DATE_FIN'' = None
   \<or> indexOf (csv_headers c) ''P_SOUSCRITE'' = None
   \<or> indexOf (csv_headers c) ''PART_VARIABLE_HC_TTC'' = None
   \<or> indexOf (csv_headers c) ''PART_VARIABLE_HP_TTC'' = None
   \<or> indexOf (csv_headers c) ''PART_FIXE_TTC'' = None
   \<Longrightarrow> processPeakOffPeakOptions c = Inl RequiredColumnsNotFound"
  by (auto simp: processPeakOffPeakOptions_def Let_def split: option.splits)

lemma processTempoOptions_missing:
  "indexOf (csv_headers c) ''DATE_DEBUT'' = None \<or> indexOf (csv_headers c) ''DATE_FIN'' = None
   \<or> indexOf (csv_headers c) ''P_SOUSCRITE'' = None
   \<or> indexOf (csv_headers c) ''PART_VARIABLE_HCBleu_TTC'' = None
   \<or> indexOf (csv_headers c) ''PART_VARIABLE_HPBleu_TTC'' = None
   \<or> indexOf (csv_headers c) ''PART_VARIABLE_HCBlanc_TTC'' = None
   \<or> indexOf (csv_headers c) ''PART_VARIABLE_HPBlanc_TTC'' = None
   \<or> indexOf (csv_headers c) ''PART_VARIABLE_HCRouge_TTC'' = None
   \<or> indexOf (csv_headers c) ''PART_VARIABLE_HPRouge_TTC'' = None
   \<or> indexOf (csv_headers c) ''PART_FIXE_TTC'' = None
   \<Longrightarrow> processTempoOptions c = Inl RequiredColumnsNotFound"
  by (auto simp: processTempoOptions_def Let_def split: option.splits)

text \<open>
  Claim C5. When a header a tabular converter requires is absent from the header line
  (\<open>DATE_DEBUT\<close>, \<open>DATE_FIN\<close>, \<open>P_SOUSCRITE\<close>, the converter's \<open>PART_VARIABLE_*_TTC\<close>
  columns or \<open>PART_FIXE_TTC\<close>), the converter raises its error and returns no result at
  all: no row of the file is converted.
\<close>

theorem missing_header_aborts:
  assumes "h \<notin> set (csv_headers csvContent)"
  shows "(h \<in> set [''DATE_DEBUT'', ''DATE_FIN'', ''P_SOUSCRITE'', ''PART_VARIABLE_TTC'',
                    ''PART_FIXE_TTC'']
            \<longrightarrow> processBaseOptions csvContent = Inl RequiredColumnsNotFound)
       \<and> (h \<in> set [''DATE_DEBUT'', ''DATE_FIN'', ''P_SOUSCRITE'', ''PART_VARIABLE_HC_TTC'',
                    ''PART_VARIABLE_HP_TTC'', ''PART_FIXE_TTC'']
            \<longrightarrow> processPeakOffPeakOptions csvContent = Inl RequiredColumnsNotFound)
       \<and> (h \<in> set [''DATE_DEBUT'', ''DATE_FIN'', ''P_SOUSCRITE'', ''PART_VARIABLE_HCBleu_TTC'',
                    ''PART_VARIABLE_HPBleu_TTC'', ''PART_VARIABLE_HCBlanc_TTC'',
                    ''PART_VARIABLE_HPBlanc_TTC'', ''PART_VARIABLE_HCRouge_TTC'',
                    ''PART_VARIABLE_HPRouge_TTC'', ''PART_FIXE_TTC'']
            \<longrightarrow> processTempoOptions csvContent = Inl RequiredColumnsNotFound)"
proof -
  from assms have none: "indexOf (csv_headers csvContent) h = None"
    by (simp add: indexOf_None_iff)
  show ?thesis
  proof (intro conjI impI)
    assume "h \<in> set [''DATE_DEBUT'', ''DATE_FIN'', ''P_SOUSCRITE'', ''PART_VARIABLE_TTC'',
                    ''PART_FIXE_TTC'']"
    with none show "processBaseOptions csvContent = Inl RequiredColumnsNotFound"
      by (intro processBaseOptions_missing) auto
  next
    assume "h \<in> set [''DATE_DEBUT'', ''DATE_FIN'', ''P_SOUSCRITE'', ''PART_VARIABLE_HC_TTC'',
                    ''PART_VARIABLE_HP_TTC'', ''PART_FIXE_TTC'']"
    with none show "processPeakOffPeakOptions csvContent = Inl RequiredColumnsNotFound"
      by (intro processPeakOffPeakOptions_missing) auto
  next
    assume "h \<in> set [''DATE_DEBUT'', ''DATE_FIN'', ''P_SOUSCRITE'', ''PART_VARIABLE_HCBleu_TTC'',
                    ''PART_VARIABLE_HPBleu_TTC'', ''PART_VARIABLE_HCBlanc_TTC'',
                    ''PART_VARIABLE_HPBlanc_TTC'', ''PART_VARIABLE_HCRouge_TTC'',
                    ''PART_VARIABLE_HPRouge_TTC'', ''PART_FIXE_TTC'']"
    with none show "processTempoOptions csvContent = Inl RequiredColumnsNotFound"
      by (intro processTempoOptions_missing) auto
  qed
qed

theorem missing_header_aborts_witness:
  "''PART_FIXE_TTC''
     \<notin> set (csv_headers (''DATE_DEBUT;DATE_FIN;P_SOUSCRITE'' @ [CHR 0x0A] @ ''01/01/2023;;6''))
   \<and> processBaseOptions (''DATE_DEBUT;DATE_FIN;P_SOUSCRITE'' @ [CHR 0x0A] @ ''01/01/2023;;6'')
       = Inl RequiredColumnsNotFound
   \<and> processPeakOffPeakOptions (''DATE_DEBUT;DATE_FIN;P_SOUSCRITE'' @ [CHR 0x0A] @ ''01/01/2023;;6'')
       = Inl RequiredColumnsNotFound
   \<and> processTempoOptions (''DATE_DEBUT;DATE_FIN;P_SOUSCRITE'' @ [CHR 0x0A] @ ''01/01/2023;;6'')
       = Inl RequiredColumnsNotFound"
proof -
  have h: "''PART_FIXE_TTC''
     \<notin> set (csv_headers (''DATE_DEBUT;DATE_FIN;P_SOUSCRITE'' @ [CHR 0x0A] @ ''01/01/2023;;6''))"
    by (simp add: csv_headers_def csv_lines_def js_trim_def is_ws_def)
  from missing_header_aborts [OF h] h show ?thesis by simp
qed

section \<open>Numeric policy\<close>

lemmas parseFloat_eval = parseFloat_def unsigned_literal_def is_ws_def is_digit_def digits_val_def
  digit_val_def pow10_def Let_def

lemma to_double_1234: "to_double (1234 / 10000) = Fin (8891907104280307 / 72057594037927936)"
  using to_double_pos [of "- 4" "1234 / 10000" 8891907104280307]
  by (simp add: pow2_def)

lemma to_double_1234_scaled:
  "to_double (8891907104280307 / 72057594037927936 * 10000) = Fin 1234"
  using to_double_pos [of 10 "8891907104280307 / 72057594037927936 * 10000" 5427189394702336]
  by (simp add: pow2_def)

lemma to_double_2345: "to_double (2345 / 10000) = Fin (4224376450473525 / 18014398509481984)"
  using to_double_pos [of "- 3" "2345 / 10000" 8448752900947050]
  by (simp add: pow2_def)

lemma to_double_2345_scaled:
  "to_double (4224376450473525 / 18014398509481984 * 10000) = Fin 2345"
  using to_double_pos [of 11 "4224376450473525 / 18014398509481984 * 10000" 5156709534269440]
  by (simp add: pow2_def)

lemma Math_round_of_int: "Math_round (Fin (of_int k)) = Fin (of_int k)"
  by (simp add: floor_eq_iff)

lemma scaled_price_1234: "scaled_price ''0,1234'' = Fin 1234"
proof -
  have r: "replace_first CHR '','' ''.'' ''0,1234'' = ''0.1234''" by simp
  have p: "parseFloat ''0.1234'' = to_double (1234 / 10000)" by (simp add: parseFloat_eval)
  have m: "Math_round (Fin 1234) = Fin 1234" using Math_round_of_int [of 1234] by simp
  show ?thesis
    unfolding scaled_price_def r p to_double_1234 js_mul.simps to_double_1234_scaled m ..
qed

lemma scaled_price_2345: "scaled_price ''0,2345'' = Fin 2345"
proof -
  have r: "replace_first CHR '','' ''.'' ''0,2345'' = ''0.2345''" by simp
  have p: "parseFloat ''0.2345'' = to_double (2345 / 10000)" by (simp add: parseFloat_eval)
  have m: "Math_round (Fin 2345) = Fin 2345" using Math_round_of_int [of 2345] by simp
  show ?thesis
    unfolding scaled_price_def r p to_double_2345 js_mul.simps to_double_2345_scaled m ..
qed

lemma monthly_price_120: "monthly_price ''120,00'' = Fin 100000"
proof -
  have r: "replace_first CHR '','' ''.'' ''120,00'' = ''120.00''" by simp
  have p: "parseFloat ''120.00'' = to_double (of_int 120)" by (simp add: parseFloat_eval)
  have a: "to_double (of_int 120) = Fin 120" using to_double_int [of 120] by simp
  have d: "js_div_pos (Fin 120) 12 = to_double (of_int 10)" by simp
  have b: "to_double (of_int 10) = Fin 10" using to_double_int [of 10] by simp
  have e: "js_mul (Fin 10) (Fin 10000) = to_double (of_int 100000)" by simp
  have c: "to_double (of_int 100000) = Fin 100000" using to_double_int [of 100000] by simp
  have m: "Math_round (Fin 100000) = Fin 100000" using Math_round_of_int [of 100000] by simp
  show ?thesis
    unfolding monthly_price_def r p a d b e c m ..
qed

lemma to_double_overflow:
  assumes "pow2 e \<le> a" and "a < pow2 (e + 1)" and "- 1022 \<le> e"
    and "\<bar>a / pow2 (e - 52) - of_int m\<bar> < 1 / 2"
    and "pow2 1024 \<le> of_int m * pow2 (e - 52)"
  shows "to_double a = PosInf"
proof -
  have apos: "0 < a" using assms(1) pow2_pos [of e] by linarith
  have il: "ilog2 a = e" using assms(1,2) by (rule ilog2_unique)
  have mx: "max (ilog2 a) (- 1022) = e" using il assms(3) by simp
  have rd: "round_half_even (a / pow2 (e - 52)) = m"
    using assms(4) by (rule round_half_even_near)
  show ?thesis
    using apos assms(5) by (simp add: to_double_def Let_def mx rd)
qed

lemma to_double_1e308: "to_double (10 ^ 308) = Fin (5010420900022432 * 2 ^ 971)"
  using to_double_pos [of 1023 "10 ^ 308" 5010420900022432]
  by (simp add: pow2_def)

lemma to_double_1e308_scaled: "to_double (5010420900022432 * 2 ^ 971 * 10000) = PosInf"
  using to_double_overflow [of 1036 "5010420900022432 * 2 ^ 971 * 10000" 6116236450222695]
  by (simp add: pow2_def)

lemma unsigned_literal_1e308: "unsigned_literal ''1e308'' = Some (LitDecimal (10 ^ 308))"
  by (simp add: unsigned_literal_def is_digit_def digits_val_def digit_val_def pow10_def Let_def)

lemma parseFloat_1e308:
  "parseFloat (replace_first CHR '','' ''.'' ''1e308'') = Fin (5010420900022432 * 2 ^ 971)"
proof -
  have r: "replace_first CHR '','' ''.'' ''1e308'' = ''1e308''" by simp
  have p: "parseFloat ''1e308'' = to_double (10 ^ 308)"
    by (simp add: parseFloat_def is_ws_def unsigned_literal_1e308)
  show ?thesis unfolding r p to_double_1e308 ..
qed

lemma to_double_cases:
  "(\<exists>y. to_double r = Fin y) \<or> to_double r = PosInf \<or> to_double r = NegInf"
  by (simp add: to_double_def Let_def)

text \<open>
  Claim C7, as the code has it. Take a price string whose text, after its first comma
  is replaced by a point, \<open>parseFloat\<close> reads as a finite number \<open>x\<close>. The binary64
  product of \<open>x\<close> and 10000 is a finite number or an infinity. When it is finite, the
  consumption price is the integer nearest to it; when it is an infinity (the product
  overflows, as for \<open>1e308\<close>), the consumption price is that infinity, not an integer.
  The subscription price is obtained in the same way from the binary64 product of 10000
  and the binary64 quotient of \<open>x\<close> by 12: the nearest integer when that product is
  finite, the infinity when the quotient or the product is one. A tie goes to the larger
  integer, as \<open>Math.round\<close> does: for a value that is not negative this is rounding half
  away from zero, for a negative tie it is one more than that.
\<close>

theorem price_rounding:
  assumes "parseFloat (replace_first CHR '','' ''.'' s) = Fin x"
  shows "((\<exists>y. to_double (x * 10000) = Fin y) \<or> to_double (x * 10000) = PosInf
          \<or> to_double (x * 10000) = NegInf)
       \<and> (to_double (x * 10000) = PosInf \<longrightarrow> scaled_price s = PosInf)
       \<and> (to_double (x * 10000) = NegInf \<longrightarrow> scaled_price s = NegInf)
       \<and> (\<forall>y. to_double (x * 10000) = Fin y \<longrightarrow>
            (\<exists>k. scaled_price s = Fin (of_int k)
               \<and> \<bar>of_int k - y\<bar> \<le> 1 / 2
               \<and> (\<bar>of_int k - y\<bar> = 1 / 2 \<longrightarrow> y < of_int k)
               \<and> (0 \<le> y \<longrightarrow> k = round_half_away_from_zero y)
               \<and> (y < 0 \<and> \<bar>of_int k - y\<bar> = 1 / 2 \<longrightarrow> k = round_half_away_from_zero y + 1)))
       \<and> ((\<exists>z. to_double (x / 12) = Fin z) \<or> to_double (x / 12) = PosInf
          \<or> to_double (x / 12) = NegInf)
       \<and> (to_double (x / 12) = PosInf \<longrightarrow> monthly_price s = PosInf)
       \<and> (to_double (x / 12) = NegInf \<longrightarrow> monthly_price s = NegInf)
       \<and> (\<forall>z. to_double (x / 12) = Fin z \<longrightarrow>
            ((\<exists>y. to_double (z * 10000) = Fin y) \<or> to_double (z * 10000) = PosInf
               \<or> to_double (z * 10000) = NegInf)
            \<and> (to_double (z * 10000) = PosInf \<longrightarrow> monthly_price s = PosInf)
            \<and> (to_double (z * 10000) = NegInf \<longrightarrow> monthly_price s = NegInf))
       \<and> (\<forall>z y. to_double (x / 12) = Fin z \<and> to_double (z * 10000) = Fin y \<longrightarrow>
            (\<exists>k. monthly_price s = Fin (of_int k)
               \<and> \<bar>of_int k - y\<bar> \<le> 1 / 2
               \<and> (\<bar>of_int k - y\<bar> = 1 / 2 \<longrightarrow> y < of_int k)
               \<and> (0 \<le> y \<longrightarrow> k = round_half_away_from_zero y)
               \<and> (y < 0 \<and> \<bar>of_int k - y\<bar> = 1 / 2 \<longrightarrow> k = round_half_away_from_zero y + 1)))"
proof -
  have sp: "scaled_price s = Math_round (to_double (x * 10000))"
    using assms by (simp add: scaled_price_def)
  have mp: "monthly_price s = Math_round (js_mul (to_double (x / 12)) (Fin 10000))"
    using assms by (simp add: monthly_price_def)
  have c1: "(\<exists>y. to_double (x * 10000) = Fin y) \<or> to_double (x * 10000) = PosInf
          \<or> to_double (x * 10000) = NegInf"
    by (rule to_double_cases)
  have c2: "to_double (x * 10000) = PosInf \<longrightarrow> scaled_price s = PosInf"
    by (simp add: sp)
  have c3: "to_double (x * 10000) = NegInf \<longrightarrow> scaled_price s = NegInf"
    by (simp add: sp)
  have c4: "\<forall>y. to_double (x * 10000) = Fin y \<longrightarrow>
            (\<exists>k. scaled_price s = Fin (of_int k)
               \<and> \<bar>of_int k - y\<bar> \<le> 1 / 2
               \<and> (\<bar>of_int k - y\<bar> = 1 / 2 \<longrightarrow> y < of_int k)
               \<and> (0 \<le> y \<longrightarrow> k = round_half_away_from_zero y)
               \<and> (y < 0 \<and> \<bar>of_int k - y\<bar> = 1 / 2 \<longrightarrow> k = round_half_away_from_zero y + 1))"
  proof (intro allI impI)
    fix y
    assume "to_double (x * 10000) = Fin y"
    with sp have "scaled_price s = Math_round (Fin y)" by simp
    with Math_round_Fin [of y]
    show "\<exists>k. scaled_price s = Fin (of_int k)
               \<and> \<bar>of_int k - y\<bar> \<le> 1 / 2
               \<and> (\<bar>of_int k - y\<bar> = 1 / 2 \<longrightarrow> y < of_int k)
               \<and> (0 \<le> y \<longrightarrow> k = round_half_away_from_zero y)
               \<and> (y < 0 \<and> \<bar>of_int k - y\<bar> = 1 / 2 \<longrightarrow> k = round_half_away_from_zero y + 1)"
      by simp
  qed
  have c5: "(\<exists>z. to_double (x / 12) = Fin z) \<or> to_double (x / 12) = PosInf
          \<or> to_double (x / 12) = NegInf"
    by (rule to_double_cases)
  have c6: "to_double (x / 12) = PosInf \<longrightarrow> monthly_price s = PosInf"
    by (simp add: mp)
  have c7: "to_double (x / 12) = NegInf \<longrightarrow> monthly_price s = NegInf"
    by (simp add: mp)
  have c8: "\<forall>z. to_double (x / 12) = Fin z \<longrightarrow>
            ((\<exists>y. to_double (z * 10000) = Fin y) \<or> to_double (z * 10000) = PosInf
               \<or> to_double (z * 10000) = NegInf)
            \<and> (to_double (z * 10000) = PosInf \<longrightarrow> monthly_price s = PosInf)
            \<and> (to_double (z * 10000) = NegInf \<longrightarrow> monthly_price s = NegInf)"
    using to_double_cases by (simp add: mp)
  have c9: "\<forall>z y. to_double (x / 12) = Fin z \<and> to_double (z * 10000) = Fin y \<longrightarrow>
            (\<exists>k. monthly_price s = Fin (of_int k)
               \<and> \<bar>of_int k - y\<bar> \<le> 1 / 2
               \<and> (\<bar>of_int k - y\<bar> = 1 / 2 \<longrightarrow> y < of_int k)
               \<and> (0 \<le> y \<longrightarrow> k = round_half_away_from_zero y)
               \<and> (y < 0 \<and> \<bar>of_int k - y\<bar> = 1 / 2 \<longrightarrow> k = round_half_away_from_zero y + 1))"
  proof (intro allI impI)
    fix z y
    assume "to_double (x / 12) = Fin z \<and> to_double (z * 10000) = Fin y"
    with mp have "monthly_price s = Math_round (Fin y)" by simp
    with Math_round_Fin [of y]
    show "\<exists>k. monthly_price s = Fin (of_int k)
               \<and> \<bar>of_int k - y\<bar> \<le> 1 / 2
               \<and> (\<bar>of_int k - y\<bar> = 1 / 2 \<longrightarrow> y < of_int k)
               \<and> (0 \<le> y \<longrightarrow> k = round_half_away_from_zero y)
               \<and> (y < 0 \<and> \<bar>of_int k - y\<bar> = 1 / 2 \<longrightarrow> k = round_half_away_from_zero y + 1)"
      by simp
  qed
  from c1 c2 c3 c4 c5 c6 c7 c8 c9 show ?thesis by (intro conjI)
qed

theorem price_rounding_witness:
  "parseFloat (replace_first CHR '','' ''.'' ''0,1234'')
     = Fin (8891907104280307 / 72057594037927936)
   \<and> to_double (8891907104280307 / 72057594037927936 * 10000) = Fin 1234
   \<and> scaled_price ''0,1234'' = Fin (of_int (round_half_away_from_zero 1234))
   \<and> parseFloat (replace_first CHR '','' ''.'' ''1e308'') = Fin (5010420900022432 * 2 ^ 971)
   \<and> to_double (5010420900022432 * 2 ^ 971 * 10000) = PosInf
   \<and> scaled_price ''1e308'' = PosInf"
proof -
  have r: "replace_first CHR '','' ''.'' ''0,1234'' = ''0.1234''" by simp
  have p: "parseFloat ''0.1234'' = to_double (1234 / 10000)" by (simp add: parseFloat_eval)
  have h: "parseFloat (replace_first CHR '','' ''.'' ''0,1234'')
     = Fin (8891907104280307 / 72057594037927936)"
    unfolding r p to_double_1234 ..
  note fin = price_rounding [OF h, THEN conjunct2, THEN conjunct2, THEN conjunct2,
      THEN conjunct1, THEN spec, THEN mp, OF to_double_1234_scaled]
  from fin obtain k where "scaled_price ''0,1234'' = Fin (of_int k)"
    and "0 \<le> (1234::rat) \<longrightarrow> k = round_half_away_from_zero 1234"
    by blast
  then have a: "scaled_price ''0,1234'' = Fin (of_int (round_half_away_from_zero 1234))" by simp
  note b = price_rounding [OF parseFloat_1e308, THEN conjunct2, THEN conjunct1, THEN mp,
      OF to_double_1e308_scaled]
  from h to_double_1234_scaled a parseFloat_1e308 to_double_1e308_scaled b
  show ?thesis by (intro conjI)
qed

lemma to_double_minus_32nd: "to_double (- (3125 / 100000)) = Fin (- (1 / 32))"
  using to_double_neg [of "- 5" "3125 / 100000" 4503599627370496]
  by (simp add: pow2_def)

lemma to_double_minus_312_5: "to_double (- (1 / 32) * 10000) = Fin (- (625 / 2))"
  using to_double_neg [of 8 "625 / 2" 5497558138880000]
  by (simp add: pow2_def)

text \<open>
  Claim C7 as stated fails on a negative tie: the price string \<open>-0,03125\<close> scales to
  \<open>-312.5\<close> exactly, which \<open>Math.round\<close> takes to \<open>-312\<close> and rounding half away from zero
  to \<open>-313\<close>.
\<close>

theorem negative_tie_rounds_up:
  "scaled_price ''-0,03125'' = Fin (- 312)
   \<and> round_half_away_from_zero (- (3125 / 100000) * 10000) = - 313"
proof -
  have r: "replace_first CHR '','' ''.'' ''-0,03125'' = ''-0.03125''" by simp
  have p: "parseFloat ''-0.03125'' = to_double (- (3125 / 100000))"
    by (simp add: parseFloat_eval)
  have m: "Math_round (Fin (- (625 / 2))) = Fin (- 312)" by (simp add: floor_eq_iff)
  have 1: "scaled_price ''-0,03125'' = Fin (- 312)"
    unfolding scaled_price_def r p to_double_minus_32nd js_mul.simps to_double_minus_312_5 m ..
  have 2: "round_half_away_from_zero (- (3125 / 100000) * 10000) = - 313"
    by (simp add: round_half_away_from_zero_def floor_eq_iff)
  from 1 2 show ?thesis ..
qed

section \<open>The dual-rate scenario\<close>

lemmas csv_eval = csv_lines_def csv_headers_def js_trim_def is_ws_def

text \<open>
  Claim C3. The dual-rate file of one header line and one data row with
  \<open>P_SOUSCRITE\<close> 6, off-peak price \<open>0,1234\<close>, peak price \<open>0,2345\<close>, subscription price
  \<open>120,00\<close>, start date \<open>01/01/2023\<close> and no end date is converted to one power level,
  \<open>6\<close>, with exactly three price objects: consumption at 1234 with
  \<open>TO_REPLACE_OFF_PEAK\<close>, consumption at 2345 with \<open>TO_REPLACE_PEAK\<close>, subscription at
  100000; each from \<open>2023-01-01\<close> with the end date \<open>null\<close>.
\<close>

theorem peak_off_peak_scenario:
  "processPeakOffPeakOptions
     (''DATE_DEBUT;DATE_FIN;P_SOUSCRITE;PART_VARIABLE_HC_TTC;PART_VARIABLE_HP_TTC;PART_FIXE_TTC''
        @ [CHR 0x0A] @ ''01/01/2023;;6;0,1234;0,2345;120,00'')
   = Inr [''6'' \<mapsto>
       [Obj [(''contract'', Str ''peak-off-peak''), (''price_type'', Str ''consumption''),
             (''currency'', Str ''euro''), (''start_date'', Str ''2023-01-01''),
             (''end_date'', Null), (''price'', Num (Fin 1234)),
             (''hour_slots'', Str ''TO_REPLACE_OFF_PEAK''), (''day_type'', Null)],
        Obj [(''contract'', Str ''peak-off-peak''), (''price_type'', Str ''consumption''),
             (''currency'', Str ''euro''), (''start_date'', Str ''2023-01-01''),
             (''end_date'', Null), (''price'', Num (Fin 2345)),
             (''hour_slots'', Str ''TO_REPLACE_PEAK''), (''day_type'', Null)],
        Obj [(''contract'', Str ''peak-off-peak''), (''price_type'', Str ''subscription''),
             (''currency'', Str ''euro''), (''start_date'', Str ''2023-01-01''),
             (''end_date'', Null), (''price'', Num (Fin 100000)),
             (''hour_slots'', Null), (''day_type'', Null)]]]"
  by (simp add: processPeakOffPeakOptions_def csv_eval peak_off_peak_row_def
      scaled_price_1234 scaled_price_2345 monthly_price_120 convertToIsoDate_def padStart2_def
      end_date_iso_def push_prices_def Object_prototype_keys_def price_object_def)

section \<open>Rows of the calendar-tiered converter\<close>

lemma peakSlots_marks: "peakSlots = join_with '','' (map half_hour_mark [12..<44])"
  by (simp add: peakSlots_def half_hour_mark_def two_digits_def digit_char_def upt_rec)

lemma offPeakSlots_marks:
  "offPeakSlots = join_with '','' (map half_hour_mark ([0..<12] @ [44..<48]))"
  by (simp add: offPeakSlots_def half_hour_mark_def two_digits_def digit_char_def upt_rec)

lemma column_nonempty: "column columns i \<noteq> [] \<Longrightarrow> nth_opt columns i = Some (column columns i)"
  by (simp add: column_def split: option.splits)

lemma column_empty: "column columns i = [] \<longleftrightarrow> falsy_str (nth_opt columns i)"
  by (cases "nth_opt columns i") (simp_all add: column_def)


lemma end_date_iso_ok:
  "endDate = [] \<or> CHR ''/'' \<in> set endDate \<Longrightarrow> column columns i = endDate
   \<Longrightarrow> \<exists>e. end_date_iso (nth_opt columns i) = Inr e"
  using convertToIsoDate_with_separator [of endDate]
  by (cases "nth_opt columns i") (auto simp: end_date_iso_def column_def)

lemma tempo_row_skip:
  "js_trim rawLine = [] \<or> \<not> tempo_well_formed ix (split_on CHR '';'' (js_trim rawLine))
   \<Longrightarrow> tempo_row ix rawLine result = Inr result"
  by (auto simp: tempo_row_def Let_def tempo_well_formed_def column_empty)

lemma tempo_row_push:
  assumes "js_trim rawLine \<noteq> []"
    and "tempo_well_formed ix (split_on CHR '';'' (js_trim rawLine))"
    and "convertToIsoDate (nth_opt (split_on CHR '';'' (js_trim rawLine)) (dateDebutIndex ix))
           = Inr startIso"
    and "end_date_iso (nth_opt (split_on CHR '';'' (js_trim rawLine)) (dateFinIndex ix))
           = Inr endIso"
  shows "tempo_row ix rawLine result =
     push_prices result (column (split_on CHR '';'' (js_trim rawLine)) (pSouscriteIndex ix))
       (tempo_price_objects startIso endIso
          (scaled_price (column (split_on CHR '';'' (js_trim rawLine)) (partVariableHcBleuTtcIndex ix)))
          (scaled_price (column (split_on CHR '';'' (js_trim rawLine)) (partVariableHpBleuTtcIndex ix)))
          (scaled_price (column (split_on CHR '';'' (js_trim rawLine)) (partVariableHcBlancTtcIndex ix)))
          (scaled_price (column (split_on CHR '';'' (js_trim rawLine)) (partVariableHpBlancTtcIndex ix)))
          (scaled_price (column (split_on CHR '';'' (js_trim rawLine)) (partVariableHcRougeTtcIndex ix)))
          (scaled_price (column (split_on CHR '';'' (js_trim rawLine)) (partVariableHpRougeTtcIndex ix)))
          (monthly_price (column (split_on CHR '';'' (js_trim rawLine)) (partFixeTtcIndex ix))))"
proof -
  define columns where "columns = split_on CHR '';'' (js_trim rawLine)"
  have wf: "\<And>i. i \<in> set [pSouscriteIndex ix, dateDebutIndex ix,
        partVariableHcBleuTtcIndex ix, partVariableHpBleuTtcIndex ix,
        partVariableHcBlancTtcIndex ix, partVariableHpBlancTtcIndex ix,
        partVariableHcRougeTtcIndex ix, partVariableHpRougeTtcIndex ix,
        partFixeTtcIndex ix] \<Longrightarrow> column columns i \<noteq> []"
    using assms(2) unfolding tempo_well_formed_def columns_def [symmetric] list_all_iff by blast
  have some: "\<And>i. i \<in> set [pSouscriteIndex ix, dateDebutIndex ix,
        partVariableHcBleuTtcIndex ix, partVariableHpBleuTtcIndex ix,
        partVariableHcBlancTtcIndex ix, partVariableHpBlancTtcIndex ix,
        partVariableHcRougeTtcIndex ix, partVariableHpRougeTtcIndex ix,
        partFixeTtcIndex ix] \<Longrightarrow> nth_opt columns i = Some (column columns i)"
    using wf by (rule column_nonempty)
  show ?thesis
    unfolding columns_def [symmetric]
    using assms(1,3,4) wf
    by (simp add: tempo_row_def Let_def columns_def [symmetric] some)
qed


lemma tempo_price_objects_shape:
  "length (tempo_price_objects s e p1 p2 p3 p4 p5 p6 p7) = 7
   \<and> map (\<lambda>r. (get_prop r ''price_type'', get_prop r ''day_type'', get_prop r ''hour_slots''))
         (tempo_price_objects s e p1 p2 p3 p4 p5 p6 p7)
       = map (\<lambda>(d, h). (Str ''consumption'', Str d, Str h))
           (List.product [''blue'', ''white'', ''red''] [offPeakSlots, peakSlots])
         @ [(Str ''subscription'', Null, Null)]
   \<and> map date_pair (tempo_price_objects s e p1 p2 p3 p4 p5 p6 p7) = replicate 7 (s, e)
   \<and> map (\<lambda>r. get_prop r ''price'') (tempo_price_objects s e p1 p2 p3 p4 p5 p6 p7)
       = map Num [p1, p2, p3, p4, p5, p6, p7]"
  by (simp add: tempo_price_objects_def price_object_def date_pair_def eval_nat_numeral)

text \<open>
  Claim C4, as the code has it. The peak slot list is the comma-joined text of the 32
  half-hour marks from \<open>06:00\<close> to \<open>21:30\<close>, the off-peak list that of the 16 other marks.
  A blank row, or a row in which the power level, the start date, one of the six
  variable prices or the subscription price is empty, leaves the result as it was. A
  well-formed row whose start date holds a \<open>/\<close>, whose end date is empty or holds a
  \<open>/\<close>, and whose power level is not the name of a property of \<open>Object.prototype\<close>,
  appends exactly seven price objects to its power level: six consumption objects, one
  for each day type blue, white, red with the off-peak and then the peak slot list,
  and one subscription object whose \<open>hour_slots\<close> and \<open>day_type\<close> are \<open>null\<close>; the seven
  carry the same dates, and the prices of the row's columns in this order.
\<close>

theorem tempo_row_all_or_nothing:
  fixes ix rawLine result
  defines "columns \<equiv> split_on CHR '';'' (js_trim rawLine)"
  defines "subscribedPower \<equiv> column columns (pSouscriteIndex ix)"
  shows "peakSlots = join_with '','' (map half_hour_mark [12..<44])
    \<and> offPeakSlots = join_with '','' (map half_hour_mark ([0..<12] @ [44..<48]))
    \<and> (js_trim rawLine = [] \<or> \<not> tempo_well_formed ix columns
          \<longrightarrow> tempo_row ix rawLine result = Inr result)
    \<and> (js_trim rawLine \<noteq> [] \<and> tempo_well_formed ix columns
         \<and> dates_separated (column columns (dateDebutIndex ix)) (column columns (dateFinIndex ix))
         \<and> subscribedPower \<notin> set Object_prototype_keys
          \<longrightarrow> (\<exists>startIso endIso recs.
                 convertToIsoDate (Some (column columns (dateDebutIndex ix))) = Inr startIso
               \<and> end_date_iso (nth_opt columns (dateFinIndex ix)) = Inr endIso
               \<and> tempo_row ix rawLine result
                   = Inr (result(subscribedPower \<mapsto>
                            (case result subscribedPower of None \<Rightarrow> [] | Some ps \<Rightarrow> ps) @ recs))
               \<and> length recs = 7
               \<and> map (\<lambda>r. (get_prop r ''price_type'', get_prop r ''day_type'',
                             get_prop r ''hour_slots'')) recs
                   = map (\<lambda>(d, h). (Str ''consumption'', Str d, Str h))
                       (List.product [''blue'', ''white'', ''red''] [offPeakSlots, peakSlots])
                     @ [(Str ''subscription'', Null, Null)]
               \<and> map date_pair recs = replicate 7 (startIso, endIso)
               \<and> map (\<lambda>r. get_prop r ''price'') recs
                   = map (\<lambda>i. Num (scaled_price (column columns i)))
                       [partVariableHcBleuTtcIndex ix, partVariableHpBleuTtcIndex ix,
                        partVariableHcBlancTtcIndex ix, partVariableHpBlancTtcIndex ix,
                        partVariableHcRougeTtcIndex ix, partVariableHpRougeTtcIndex ix]
                     @ [Num (monthly_price (column columns (partFixeTtcIndex ix)))]))"
proof (intro conjI impI)
  show "peakSlots = join_with '','' (map half_hour_mark [12..<44])"
    by (rule peakSlots_marks)
  show "offPeakSlots = join_with '','' (map half_hour_mark ([0..<12] @ [44..<48]))"
    by (rule offPeakSlots_marks)
next
  assume "js_trim rawLine = [] \<or> \<not> tempo_well_formed ix columns"
  then show "tempo_row ix rawLine result = Inr result"
    unfolding columns_def by (rule tempo_row_skip)
next
  assume h: "js_trim rawLine \<noteq> [] \<and> tempo_well_formed ix columns
         \<and> dates_separated (column columns (dateDebutIndex ix)) (column columns (dateFinIndex ix))
         \<and> subscribedPower \<notin> set Object_prototype_keys"
  then have wf: "tempo_well_formed ix columns" by simp
  then have st: "column columns (dateDebutIndex ix) \<noteq> []"
    by (simp add: tempo_well_formed_def)
  then have st_some: "nth_opt columns (dateDebutIndex ix) = Some (column columns (dateDebutIndex ix))"
    by (rule column_nonempty)
  from h have sep: "CHR ''/'' \<in> set (column columns (dateDebutIndex ix))"
    and esep: "column columns (dateFinIndex ix) = []
               \<or> CHR ''/'' \<in> set (column columns (dateFinIndex ix))"
    by (simp_all add: dates_separated_def)
  from convertToIsoDate_with_separator [OF st sep]
  obtain iso where s: "convertToIsoDate (Some (column columns (dateDebutIndex ix))) = Inr (Str iso)"
    by blast
  from end_date_iso_ok [OF esep refl]
  obtain endIso where e: "end_date_iso (nth_opt columns (dateFinIndex ix)) = Inr endIso"
    by blast
  define recs where "recs = tempo_price_objects (Str iso) endIso
          (scaled_price (column columns (partVariableHcBleuTtcIndex ix)))
          (scaled_price (column columns (partVariableHpBleuTtcIndex ix)))
          (scaled_price (column columns (partVariableHcBlancTtcIndex ix)))
          (scaled_price (column columns (partVariableHpBlancTtcIndex ix)))
          (scaled_price (column columns (partVariableHcRougeTtcIndex ix)))
          (scaled_price (column columns (partVariableHpRougeTtcIndex ix)))
          (monthly_price (column columns (partFixeTtcIndex ix)))"
  have "tempo_row ix rawLine result = push_prices result subscribedPower recs"
  proof -
    have a: "js_trim rawLine \<noteq> []" using h by simp
    have b: "tempo_well_formed ix (split_on CHR '';'' (js_trim rawLine))"
      using wf by (simp add: columns_def)
    have c: "convertToIsoDate (nth_opt (split_on CHR '';'' (js_trim rawLine)) (dateDebutIndex ix))
               = Inr (Str iso)"
      using s st_some by (simp add: columns_def)
    have d: "end_date_iso (nth_opt (split_on CHR '';'' (js_trim rawLine)) (dateFinIndex ix))
               = Inr endIso"
      using e by (simp add: columns_def)
    show ?thesis
      unfolding recs_def subscribedPower_def columns_def
      by (rule tempo_row_push [OF a b c d])
  qed
  with h have row: "tempo_row ix rawLine result
      = Inr (result(subscribedPower \<mapsto> (case result subscribedPower of None \<Rightarrow> [] | Some ps \<Rightarrow> ps) @ recs))"
    by (simp add: push_prices_def)
  from tempo_price_objects_shape [of "Str iso" endIso
      "scaled_price (column columns (partVariableHcBleuTtcIndex ix))"
      "scaled_price (column columns (partVariableHpBleuTtcIndex ix))"
      "scaled_price (column columns (partVariableHcBlancTtcIndex ix))"
      "scaled_price (column columns (partVariableHpBlancTtcIndex ix))"
      "scaled_price (column columns (partVariableHcRougeTtcIndex ix))"
      "scaled_price (column columns (partVariableHpRougeTtcIndex ix))"
      "monthly_price (column columns (partFixeTtcIndex ix))"]
  have shape: "length recs = 7"
    "map (\<lambda>r. (get_prop r ''price_type'', get_prop r ''day_type'', get_prop r ''hour_slots'')) recs
       = map (\<lambda>(d, h). (Str ''consumption'', Str d, Str h))
           (List.product [''blue'', ''white'', ''red''] [offPeakSlots, peakSlots])
         @ [(Str ''subscription'', Null, Null)]"
    "map date_pair recs = replicate 7 (Str iso, endIso)"
    "map (\<lambda>r. get_prop r ''price'') recs
       = map (\<lambda>i. Num (scaled_price (column columns i)))
           [partVariableHcBleuTtcIndex ix, partVariableHpBleuTtcIndex ix,
            partVariableHcBlancTtcIndex ix, partVariableHpBlancTtcIndex ix,
            partVariableHcRougeTtcIndex ix, partVariableHpRougeTtcIndex ix]
         @ [Num (monthly_price (column columns (partFixeTtcIndex ix)))]"
    unfolding recs_def by simp_all
  from s e row shape
  show "\<exists>startIso endIso recs.
                 convertToIsoDate (Some (column columns (dateDebutIndex ix))) = Inr startIso
               \<and> end_date_iso (nth_opt columns (dateFinIndex ix)) = Inr endIso
               \<and> tempo_row ix rawLine result
                   = Inr (result(subscribedPower \<mapsto>
                            (case result subscribedPower of None \<Rightarrow> [] | Some ps \<Rightarrow> ps) @ recs))
               \<and> length recs = 7
               \<and> map (\<lambda>r. (get_prop r ''price_type'', get_prop r ''day_type'',
                             get_prop r ''hour_slots'')) recs
                   = map (\<lambda>(d, h). (Str ''consumption'', Str d, Str h))
                       (List.product [''blue'', ''white'', ''red''] [offPeakSlots, peakSlots])
                     @ [(Str ''subscription'', Null, Null)]
               \<and> map date_pair recs = replicate 7 (startIso, endIso)
               \<and> map (\<lambda>r. get_prop r ''price'') recs
                   = map (\<lambda>i. Num (scaled_price (column columns i)))
                       [partVariableHcBleuTtcIndex ix, partVariableHpBleuTtcIndex ix,
                        partVariableHcBlancTtcIndex ix, partVariableHpBlancTtcIndex ix,
                        partVariableHcRougeTtcIndex ix, partVariableHpRougeTtcIndex ix]
                     @ [Num (monthly_price (column columns (partFixeTtcIndex ix)))]"
    by blast
qed


theorem tempo_row_all_or_nothing_witness:
  "js_trim ''01/01/2023;;6;1;1;1;1;1;1;12'' \<noteq> []
   \<and> tempo_well_formed
        \<lparr>dateDebutIndex = 0, dateFinIndex = 1, pSouscriteIndex = 2,
         partVariableHcBleuTtcIndex = 3, partVariableHpBleuTtcIndex = 4,
         partVariableHcBlancTtcIndex = 5, partVariableHpBlancTtcIndex = 6,
         partVariableHcRougeTtcIndex = 7, partVariableHpRougeTtcIndex = 8,
         partFixeTtcIndex = 9\<rparr>
        (split_on CHR '';'' (js_trim ''01/01/2023;;6;1;1;1;1;1;1;12''))
   \<and> dates_separated ''01/01/2023'' []
   \<and> ''6'' \<notin> set Object_prototype_keys
   \<and> (\<exists>recs. tempo_row
          \<lparr>dateDebutIndex = 0, dateFinIndex = 1, pSouscriteIndex = 2,
           partVariableHcBleuTtcIndex = 3, partVariableHpBleuTtcIndex = 4,
           partVariableHcBlancTtcIndex = 5, partVariableHpBlancTtcIndex = 6,
           partVariableHcRougeTtcIndex = 7, partVariableHpRougeTtcIndex = 8,
           partFixeTtcIndex = 9\<rparr>
          ''01/01/2023;;6;1;1;1;1;1;1;12'' Map.empty = Inr [''6'' \<mapsto> recs]
        \<and> length recs = 7
        \<and> map date_pair recs = replicate 7 (Str ''2023-01-01'', Null))"
proof -
  define ix where "ix = \<lparr>dateDebutIndex = 0, dateFinIndex = 1, pSouscriteIndex = 2,
         partVariableHcBleuTtcIndex = 3, partVariableHpBleuTtcIndex = 4,
         partVariableHcBlancTtcIndex = 5, partVariableHpBlancTtcIndex = 6,
         partVariableHcRougeTtcIndex = 7, partVariableHpRougeTtcIndex = 8,
         partFixeTtcIndex = 9\<rparr>"
  have t: "js_trim ''01/01/2023;;6;1;1;1;1;1;1;12'' = ''01/01/2023;;6;1;1;1;1;1;1;12''"
    by (simp add: js_trim_def is_ws_def)
  have c: "split_on CHR '';'' ''01/01/2023;;6;1;1;1;1;1;1;12''
        = [''01/01/2023'', [], ''6'', ''1'', ''1'', ''1'', ''1'', ''1'', ''1'', ''12'']"
    by simp
  have wf: "tempo_well_formed ix (split_on CHR '';'' (js_trim ''01/01/2023;;6;1;1;1;1;1;1;12''))"
    unfolding t c by (simp add: tempo_well_formed_def column_def ix_def eval_nat_numeral)
  have ds: "dates_separated ''01/01/2023'' []" by (simp add: dates_separated_def)
  have k: "''6'' \<notin> set Object_prototype_keys" by (simp add: Object_prototype_keys_def)
  have cols: "column (split_on CHR '';'' (js_trim ''01/01/2023;;6;1;1;1;1;1;1;12'')) (dateDebutIndex ix)
        = ''01/01/2023''"
    "column (split_on CHR '';'' (js_trim ''01/01/2023;;6;1;1;1;1;1;1;12'')) (dateFinIndex ix) = []"
    "column (split_on CHR '';'' (js_trim ''01/01/2023;;6;1;1;1;1;1;1;12'')) (pSouscriteIndex ix) = ''6''"
    "nth_opt (split_on CHR '';'' (js_trim ''01/01/2023;;6;1;1;1;1;1;1;12'')) (dateFinIndex ix) = Some []"
    unfolding t c by (simp_all add: column_def ix_def eval_nat_numeral)
  have iso: "convertToIsoDate (Some ''01/01/2023'') = Inr (Str ''2023-01-01'')"
    by (simp add: convertToIsoDate_def padStart2_def)
  have e: "end_date_iso (Some []) = Inr Null" by (simp add: end_date_iso_def)
  from tempo_row_all_or_nothing
    [where ix = ix and rawLine = "''01/01/2023;;6;1;1;1;1;1;1;12''" and result = Map.empty]
    wf ds k
  have "\<exists>recs. tempo_row ix ''01/01/2023;;6;1;1;1;1;1;1;12'' Map.empty = Inr [''6'' \<mapsto> recs]
        \<and> length recs = 7
        \<and> map date_pair recs = replicate 7 (Str ''2023-01-01'', Null)"
    unfolding cols iso e by (auto simp: t)
  with wf ds k show ?thesis unfolding ix_def by (simp add: t)
qed

text \<open>
  Claim C4 as stated fails: a row with every required field filled in whose start
  date holds no \<open>/\<close> adds no seven price objects; the date conversion raises and the
  converter ends with that error.
\<close>

theorem tempo_unseparated_date_raises:
  "tempo_well_formed
     \<lparr>dateDebutIndex = 0, dateFinIndex = 1, pSouscriteIndex = 2,
      partVariableHcBleuTtcIndex = 3, partVariableHpBleuTtcIndex = 4,
      partVariableHcBlancTtcIndex = 5, partVariableHpBlancTtcIndex = 6,
      partVariableHcRougeTtcIndex = 7, partVariableHpRougeTtcIndex = 8,
      partFixeTtcIndex = 9\<rparr>
     (split_on CHR '';'' (js_trim ''2023;;6;1;1;1;1;1;1;12''))
   \<and> processTempoOptions
       (''DATE_DEBUT;DATE_FIN;P_SOUSCRITE;PART_VARIABLE_HCBleu_TTC;PART_VARIABLE_HPBleu_TTC;PART_VARIABLE_HCBlanc_TTC;PART_VARIABLE_HPBlanc_TTC;PART_VARIABLE_HCRouge_TTC;PART_VARIABLE_HPRouge_TTC;PART_FIXE_TTC''
          @ [CHR 0x0A] @ ''2023;;6;1;1;1;1;1;1;12'')
     = Inl TypeError"
  by (simp add: tempo_well_formed_def column_def processTempoOptions_def csv_eval tempo_row_def
      convertToIsoDate_def eval_nat_numeral)

section \<open>Temporal coverage parity\<close>





lemma for_rows_invariant:
  assumes "\<And>l r r'. I r \<Longrightarrow> body l r = Inr r' \<Longrightarrow> I r'"
  shows "I r \<Longrightarrow> for_rows body ls r = Inr r' \<Longrightarrow> I r'"
proof (induction ls arbitrary: r)
  case Nil
  then show ?case by simp
next
  case (Cons l ls)
  then show ?case using assms by (auto split: sum.splits)
qed












lemma for_each_Inr_iff: "for_each f xs = Inr u \<longleftrightarrow> (\<forall>x \<in> set xs. f x = Inr ())"
  by (induction xs) (auto split: sum.splits)








lemmas validator_eval = runTests_def validate_contract_def validate_power_def
  validatePriceObject_def requiredFields_def validContracts_def dateRegex_test_def is_digit_def
  validateContractSpecificRequirements_def subscription_check_def consumption_check_def
  consistency_contract_def consistency_power_def date_range_def expectedContracts_def
  totalSubscription_def price_object_def Let_def


section \<open>The zero price\<close>

lemma validatePriceObject_price_object:
  assumes "contract \<in> set validContracts"
    and "price_type \<in> {''consumption'', ''subscription''}"
    and "dateRegex start_date"
  shows "validatePriceObject P
           (Obj [(''contract'', Str contract), (''price_type'', Str price_type),
                 (''currency'', Str ''euro''), (''start_date'', Str start_date),
                 (''end_date'', Null), (''price'', v), (''hour_slots'', hour_slots),
                 (''day_type'', day_type)])
         = (if (case v of Num n \<Rightarrow> number_less_zero n | _ \<Rightarrow> True) then Inl InvalidPrice
            else Inr ())"
  using assms
  by (auto simp: validatePriceObject_def requiredFields_def dateRegex_test_def)

lemma subscription_zero_rejected:
  assumes "p \<in> set prices"
    and "get_prop p ''price_type'' = Str ''subscription''"
    and "get_prop p ''price'' = Num (Fin 0)"
  shows "\<exists>e. validateContractSpecificRequirements P prices contractType = Inl e"
proof (cases "validateContractSpecificRequirements P prices contractType")
  case (Inl e)
  then show ?thesis by blast
next
  case (Inr u)
  then have "for_each (subscription_check P)
               (filter (\<lambda>p. get_prop p ''price_type'' = Str ''subscription'') prices) = Inr ()"
    by (auto simp: validateContractSpecificRequirements_def Let_def split: if_splits sum.splits)
  with assms(1,2) have "subscription_check P p = Inr ()"
    by (simp add: for_each_Inr_iff)
  with assms(3) show ?thesis
    by (simp add: subscription_check_def split: if_splits)
qed

text \<open>
  Claim C9. A price object that is valid in its other fields passes
  \<open>validatePriceObject\<close> with the price 0, as a consumption price and as a subscription
  price; the check refuses a negative price and a price that is not a number. A
  consumption price of 0 beside a positive subscription price of the same dates
  passes the checks of its power level (step 5) and the consistency check (step 7).
  A subscription price of 0 is refused by the subscription check of
  \<open>validateContractSpecificRequirements\<close>: wherever the prices of a power level hold
  one, that function raises an error.
\<close>

theorem zero_price_boundary:
  assumes "contract \<in> set validContracts"
    and "price_type \<in> {''consumption'', ''subscription''}"
    and "dateRegex start_date"
  shows "validatePriceObject P
           (price_object contract price_type (Str start_date) Null (Fin 0) hour_slots day_type)
         = Inr ()
    \<and> (x < 0 \<longrightarrow>
         validatePriceObject P
           (price_object contract price_type (Str start_date) Null (Fin x) hour_slots day_type)
         = Inl InvalidPrice)
    \<and> ((\<forall>n. v \<noteq> Num n) \<longrightarrow>
         validatePriceObject P
           (Obj [(''contract'', Str contract), (''price_type'', Str price_type),
                 (''currency'', Str ''euro''), (''start_date'', Str start_date),
                 (''end_date'', Null), (''price'', v), (''hour_slots'', hour_slots),
                 (''day_type'', day_type)])
         = Inl InvalidPrice)
    \<and> (0 < y \<longrightarrow>
         validate_power P ''edf-base''
           (subscribedPower,
            Arr [price_object contract ''consumption'' (Str start_date) Null (Fin 0) Null Null,
                 price_object contract ''subscription'' (Str start_date) Null (Fin y) Null Null])
         = Inr ()
         \<and> consistency_power P
           (subscribedPower,
            Arr [price_object contract ''consumption'' (Str start_date) Null (Fin 0) Null Null,
                 price_object contract ''subscription'' (Str start_date) Null (Fin y) Null Null])
         = Inr ())
    \<and> validateContractSpecificRequirements P
           [price_object contract ''subscription'' (Str start_date) Null (Fin 0) Null Null]
           contractType
         = Inl SubscriptionNotPositive
    \<and> (p \<in> set prices \<and> get_prop p ''price_type'' = Str ''subscription''
         \<and> get_prop p ''price'' = Num (Fin 0)
         \<longrightarrow> (\<exists>e. validateContractSpecificRequirements P prices contractType = Inl e))"
proof -
  have t1: "validatePriceObject P
           (price_object contract price_type (Str start_date) Null (Fin 0) hour_slots day_type)
         = Inr ()"
    unfolding price_object_def
    using validatePriceObject_price_object [OF assms, of P "Num (Fin 0)"] by simp
  have t2: "x < 0 \<longrightarrow>
         validatePriceObject P
           (price_object contract price_type (Str start_date) Null (Fin x) hour_slots day_type)
         = Inl InvalidPrice"
    unfolding price_object_def
    using validatePriceObject_price_object [OF assms, of P "Num (Fin x)"] by simp
  have t3: "(\<forall>n. v \<noteq> Num n) \<longrightarrow>
         validatePriceObject P
           (Obj [(''contract'', Str contract), (''price_type'', Str price_type),
                 (''currency'', Str ''euro''), (''start_date'', Str start_date),
                 (''end_date'', Null), (''price'', v), (''hour_slots'', hour_slots),
                 (''day_type'', day_type)])
         = Inl InvalidPrice"
    using validatePriceObject_price_object [OF assms, of P v] by (cases v) auto
  have c0: "validatePriceObject P
      (price_object contract ''consumption'' (Str start_date) Null (Fin 0) Null Null) = Inr ()"
    unfolding price_object_def
    using validatePriceObject_price_object [OF assms(1) _ assms(3), of "''consumption''" P "Num (Fin 0)"]
    by simp
  have sy: "0 < y \<Longrightarrow> validatePriceObject P
      (price_object contract ''subscription'' (Str start_date) Null (Fin y) Null Null) = Inr ()"
    unfolding price_object_def
    using validatePriceObject_price_object [OF assms(1) _ assms(3), of "''subscription''" P "Num (Fin y)"]
    by simp
  have t4: "0 < y \<longrightarrow>
         validate_power P ''edf-base''
           (subscribedPower,
            Arr [price_object contract ''consumption'' (Str start_date) Null (Fin 0) Null Null,
                 price_object contract ''subscription'' (Str start_date) Null (Fin y) Null Null])
         = Inr ()
         \<and> consistency_power P
           (subscribedPower,
            Arr [price_object contract ''consumption'' (Str start_date) Null (Fin 0) Null Null,
                 price_object contract ''subscription'' (Str start_date) Null (Fin y) Null Null])
         = Inr ()"
  proof
    assume y: "0 < y"
    have 1: "validate_power P ''edf-base''
           (subscribedPower,
            Arr [price_object contract ''consumption'' (Str start_date) Null (Fin 0) Null Null,
                 price_object contract ''subscription'' (Str start_date) Null (Fin y) Null Null])
         = Inr ()"
      using y by (simp add: validate_power_def c0 sy)
        (simp add: validateContractSpecificRequirements_def price_object_def
          subscription_check_def consumption_check_def)
    have 2: "consistency_power P
           (subscribedPower,
            Arr [price_object contract ''consumption'' (Str start_date) Null (Fin 0) Null Null,
                 price_object contract ''subscription'' (Str start_date) Null (Fin y) Null Null])
         = Inr ()"
      by (auto simp: consistency_power_def price_object_def date_range_def image_iff)
    from 1 2 show "validate_power P ''edf-base''
           (subscribedPower,
            Arr [price_object contract ''consumption'' (Str start_date) Null (Fin 0) Null Null,
                 price_object contract ''subscription'' (Str start_date) Null (Fin y) Null Null])
         = Inr ()
         \<and> consistency_power P
           (subscribedPower,
            Arr [price_object contract ''consumption'' (Str start_date) Null (Fin 0) Null Null,
                 price_object contract ''subscription'' (Str start_date) Null (Fin y) Null Null])
         = Inr ()" ..
  qed
  have t5: "validateContractSpecificRequirements P
           [price_object contract ''subscription'' (Str start_date) Null (Fin 0) Null Null]
           contractType
         = Inl SubscriptionNotPositive"
    by (simp add: validateContractSpecificRequirements_def price_object_def subscription_check_def)
  have t6: "p \<in> set prices \<and> get_prop p ''price_type'' = Str ''subscription''
         \<and> get_prop p ''price'' = Num (Fin 0)
         \<longrightarrow> (\<exists>e. validateContractSpecificRequirements P prices contractType = Inl e)"
    using subscription_zero_rejected by blast
  from t1 t2 t3 t4 t5 t6 show ?thesis by (intro conjI)
qed


theorem zero_price_boundary_witness:
  "''base'' \<in> set validContracts \<and> dateRegex ''2023-01-01''
   \<and> (\<forall>P. validatePriceObject P
           (price_object ''base'' ''consumption'' (Str ''2023-01-01'') Null (Fin 0) Null Null)
         = Inr ())
   \<and> (\<forall>P. validatePriceObject P
           (price_object ''base'' ''subscription'' (Str ''2023-01-01'') Null (Fin 0) Null Null)
         = Inr ())
   \<and> (\<forall>P. validatePriceObject P
           (price_object ''base'' ''consumption'' (Str ''2023-01-01'') Null (Fin (- 1)) Null Null)
         = Inl InvalidPrice)
   \<and> (\<forall>P. validateContractSpecificRequirements P
           [price_object ''base'' ''subscription'' (Str ''2023-01-01'') Null (Fin 0) Null Null]
           ''edf-base''
         = Inl SubscriptionNotPositive)
   \<and> (\<forall>P. runTests P
         (Obj [(''edf-base'', Obj [(''6'', Arr
                 [price_object ''base'' ''consumption'' (Str ''2023-01-01'') Null (Fin 0)
                    Null Null,
                  price_object ''base'' ''subscription'' (Str ''2023-01-01'') Null (Fin 10000)
                    Null Null])]),
               (''edf-peak-off-peak'', Obj [(''6'', Arr
                 [price_object ''peak-off-peak'' ''subscription'' (Str ''2023-01-01'') Null
                    (Fin 10000) Null Null])]),
               (''edf-tempo'', Obj [(''6'', Arr
                 [price_object ''edf-tempo'' ''subscription'' (Str ''2023-01-01'') Null
                    (Fin 10000) Null Null])])])
         = Inr ())
   \<and> (\<forall>P. runTests P
         (Obj [(''edf-base'', Obj [(''6'', Arr
                 [price_object ''base'' ''consumption'' (Str ''2023-01-01'') Null (Fin 10000)
                    Null Null,
                  price_object ''base'' ''subscription'' (Str ''2023-01-01'') Null (Fin 0)
                    Null Null])]),
               (''edf-peak-off-peak'', Obj [(''6'', Arr
                 [price_object ''peak-off-peak'' ''subscription'' (Str ''2023-01-01'') Null
                    (Fin 10000) Null Null])]),
               (''edf-tempo'', Obj [(''6'', Arr
                 [price_object ''edf-tempo'' ''subscription'' (Str ''2023-01-01'') Null
                    (Fin 10000) Null Null])])])
         = Inl SubscriptionNotPositive)"
proof -
  have c: "''base'' \<in> set validContracts" by (simp add: validContracts_def)
  have d: "dateRegex ''2023-01-01''" by (simp add: is_digit_def)
  have pc: "''consumption'' \<in> {''consumption'', ''subscription''}" by simp
  have ps: "''subscription'' \<in> {''consumption'', ''subscription''}" by simp
  note zc = zero_price_boundary [OF c pc d]
  note zs = zero_price_boundary [OF c ps d]
  have 1: "validatePriceObject P
           (price_object ''base'' ''consumption'' (Str ''2023-01-01'') Null (Fin 0) Null Null)
         = Inr ()" for P
    using zc [of P Null Null] by blast
  have 2: "validatePriceObject P
           (price_object ''base'' ''subscription'' (Str ''2023-01-01'') Null (Fin 0) Null Null)
         = Inr ()" for P
    using zs [of P Null Null] by blast
  have 3: "validatePriceObject P
           (price_object ''base'' ''consumption'' (Str ''2023-01-01'') Null (Fin (- 1)) Null Null)
         = Inl InvalidPrice" for P
    using zc [of P Null Null "- 1"] by simp
  have 4: "validateContractSpecificRequirements P
           [price_object ''base'' ''subscription'' (Str ''2023-01-01'') Null (Fin 0) Null Null]
           ''edf-base''
         = Inl SubscriptionNotPositive" for P
    using zc [of P Null Null 0 Null 1 "''6''" "''edf-base''"] by blast
  have 5: "runTests P
         (Obj [(''edf-base'', Obj [(''6'', Arr
                 [price_object ''base'' ''consumption'' (Str ''2023-01-01'') Null (Fin 0)
                    Null Null,
                  price_object ''base'' ''subscription'' (Str ''2023-01-01'') Null (Fin 10000)
                    Null Null])]),
               (''edf-peak-off-peak'', Obj [(''6'', Arr
                 [price_object ''peak-off-peak'' ''subscription'' (Str ''2023-01-01'') Null
                    (Fin 10000) Null Null])]),
               (''edf-tempo'', Obj [(''6'', Arr
                 [price_object ''edf-tempo'' ''subscription'' (Str ''2023-01-01'') Null
                    (Fin 10000) Null Null])])])
         = Inr ()" for P
    by (auto simp: validator_eval image_iff)
  have 6: "runTests P
         (Obj [(''edf-base'', Obj [(''6'', Arr
                 [price_object ''base'' ''consumption'' (Str ''2023-01-01'') Null (Fin 10000)
                    Null Null,
                  price_object ''base'' ''subscription'' (Str ''2023-01-01'') Null (Fin 0)
                    Null Null])]),
               (''edf-peak-off-peak'', Obj [(''6'', Arr
                 [price_object ''peak-off-peak'' ''subscription'' (Str ''2023-01-01'') Null
                    (Fin 10000) Null Null])]),
               (''edf-tempo'', Obj [(''6'', Arr
                 [price_object ''edf-tempo'' ''subscription'' (Str ''2023-01-01'') Null
                    (Fin 10000) Null Null])])])
         = Inl SubscriptionNotPositive" for P
    by (simp add: validator_eval)
  from c d 1 2 3 4 5 6 show ?thesis by blast
qed

section \<open>Contract names\<close>

lemma push_prices_known:
  assumes "known_contracts res"
    and "list_all (\<lambda>r. get_prop r ''contract'' \<in> Str ` set validContracts) objs"
    and "push_prices res k objs = Inr res'"
  shows "known_contracts res'"
proof -
  from assms(3) have r: "res' = res(k \<mapsto> (case res k of None \<Rightarrow> [] | Some ps \<Rightarrow> ps) @ objs)"
    by (auto simp: push_prices_def split: if_splits)
  have "list_all (\<lambda>r. get_prop r ''contract'' \<in> Str ` set validContracts)
          (case res k of None \<Rightarrow> [] | Some ps \<Rightarrow> ps)"
    using assms(1) by (auto simp: known_contracts_def split: option.splits)
  with assms(1,2) show ?thesis unfolding r known_contracts_def by auto
qed

lemma base_row_known:
  "known_contracts r \<Longrightarrow> base_row i1 i2 i3 i4 i5 l r = Inr r' \<Longrightarrow> known_contracts r'"
  by (auto simp: base_row_def Let_def price_object_def validContracts_def
        split: if_splits option.splits sum.splits
        intro!: push_prices_known [where res = r and res' = r'])

lemma peak_off_peak_row_known:
  "known_contracts r \<Longrightarrow> peak_off_peak_row i1 i2 i3 i4 i5 i6 l r = Inr r'
   \<Longrightarrow> known_contracts r'"
  by (auto simp: peak_off_peak_row_def Let_def price_object_def validContracts_def
        split: if_splits option.splits sum.splits
        intro!: push_prices_known [where res = r and res' = r'])

text \<open>
  The flat-rate and the dual-rate converter only emit contract names the validator
  knows.
\<close>

lemma flat_and_dual_contracts_known:
  "(processBaseOptions csvContent = Inr res \<or> processPeakOffPeakOptions csvContent = Inr res)
   \<and> res k = Some ps \<and> r \<in> set ps
   \<longrightarrow> get_prop r ''contract'' \<in> Str ` set validContracts"
proof (intro impI)
  assume h: "(processBaseOptions csvContent = Inr res
              \<or> processPeakOffPeakOptions csvContent = Inr res)
             \<and> res k = Some ps \<and> r \<in> set ps"
  have e: "known_contracts Map.empty" by (simp add: known_contracts_def)
  from h have "known_contracts res"
    by (auto simp: processBaseOptions_def processPeakOffPeakOptions_def Let_def
          split: option.splits
          intro: for_rows_invariant [where I = known_contracts, OF base_row_known e]
                 for_rows_invariant [where I = known_contracts, OF peak_off_peak_row_known e])
  with h show "get_prop r ''contract'' \<in> Str ` set validContracts"
    by (auto simp: known_contracts_def list_all_iff)
qed

text \<open>
  Claim C1 at a well-formed row of the calendar-tiered file: the converter names the
  contract \<open>tempo\<close> in its six consumption prices and \<open>es-tempo\<close> in its subscription
  price; the validator knows neither and refuses each of the seven price objects.
\<close>

theorem tempo_contracts_rejected:
  "\<exists>recs. processTempoOptions
       (''DATE_DEBUT;DATE_FIN;P_SOUSCRITE;PART_VARIABLE_HCBleu_TTC;PART_VARIABLE_HPBleu_TTC;PART_VARIABLE_HCBlanc_TTC;PART_VARIABLE_HPBlanc_TTC;PART_VARIABLE_HCRouge_TTC;PART_VARIABLE_HPRouge_TTC;PART_FIXE_TTC''
          @ [CHR 0x0A] @ ''01/01/2023;;6;1;1;1;1;1;1;12'')
     = Inr [''6'' \<mapsto> recs]
   \<and> map (\<lambda>r. get_prop r ''contract'') recs
     = [Str ''tempo'', Str ''tempo'', Str ''tempo'', Str ''tempo'', Str ''tempo'', Str ''tempo'',
        Str ''es-tempo'']
   \<and> list_all (\<lambda>r. get_prop r ''contract'' \<notin> Str ` set validContracts) recs
   \<and> (\<forall>P. list_all (\<lambda>r. validatePriceObject P r = Inl InvalidContractValue) recs)"
proof -
  define recs where "recs = tempo_price_objects (Str ''2023-01-01'') Null
     (scaled_price ''1'') (scaled_price ''1'') (scaled_price ''1'') (scaled_price ''1'')
     (scaled_price ''1'') (scaled_price ''1'') (monthly_price ''12'')"
  have run: "processTempoOptions
       (''DATE_DEBUT;DATE_FIN;P_SOUSCRITE;PART_VARIABLE_HCBleu_TTC;PART_VARIABLE_HPBleu_TTC;PART_VARIABLE_HCBlanc_TTC;PART_VARIABLE_HPBlanc_TTC;PART_VARIABLE_HCRouge_TTC;PART_VARIABLE_HPRouge_TTC;PART_FIXE_TTC''
          @ [CHR 0x0A] @ ''01/01/2023;;6;1;1;1;1;1;1;12'')
     = Inr [''6'' \<mapsto> recs]"
    unfolding recs_def
    by (simp add: processTempoOptions_def csv_eval tempo_row_def convertToIsoDate_def
        padStart2_def end_date_iso_def push_prices_def Object_prototype_keys_def
        eval_nat_numeral)
  have c: "map (\<lambda>r. get_prop r ''contract'') recs
     = [Str ''tempo'', Str ''tempo'', Str ''tempo'', Str ''tempo'', Str ''tempo'', Str ''tempo'',
        Str ''es-tempo'']"
    by (simp add: recs_def tempo_price_objects_def price_object_def)
  have n: "list_all (\<lambda>r. get_prop r ''contract'' \<notin> Str ` set validContracts) recs"
    by (simp add: recs_def tempo_price_objects_def price_object_def validContracts_def)
  have v: "list_all (\<lambda>r. validatePriceObject P r = Inl InvalidContractValue) recs" for P
    by (simp add: recs_def tempo_price_objects_def price_object_def validatePriceObject_def
        requiredFields_def validContracts_def)
  show ?thesis
    by (intro exI [of _ recs] conjI allI) (rule run c n v)+
qed

section \<open>Copies and isolation in the static-catalog converters\<close>

subsection \<open>The store grows by appending\<close>

lemma cell_at_append: "a < length h \<Longrightarrow> cell_at (h @ h') a = cell_at h a"
  by (simp add: cell_at_def nth_append)

lemma own_props_append: "h_valid h v \<Longrightarrow> own_props (h @ h') v = own_props h v"
  by (cases v) (simp_all add: own_props_def h_valid_def cell_at_append)

lemma h_valid_append: "h_valid h v \<Longrightarrow> h_valid (h @ h') v"
  by (cases v) (simp_all add: h_valid_def)

lemma copy_entries_eq:
  "list_all (h_valid h0) es \<Longrightarrow>
   copy_entries (h0 @ ext) es
     = ([length (h0 @ ext) ..< length (h0 @ ext) + length es],
        h0 @ ext @ map (\<lambda>e. ObjCell (own_props h0 e)) es)"
proof (induction es arbitrary: ext)
  case Nil
  then show ?case by simp
next
  case (Cons e es)
  from Cons.prems have e: "h_valid h0 e" and es: "list_all (h_valid h0) es" by simp_all
  have op: "own_props (h0 @ ext) e = own_props h0 e" using e by (rule own_props_append)
  define L where "L = length h0 + length ext"
  from Cons.IH [OF es, of "ext @ [ObjCell (own_props h0 e)]"]
  have ih: "copy_entries (h0 @ ext @ [ObjCell (own_props h0 e)]) es
     = ([Suc L ..< Suc L + length es],
        h0 @ ext @ ObjCell (own_props h0 e) # map (\<lambda>e. ObjCell (own_props h0 e)) es)"
    by (simp add: L_def del: upt_Suc)
  have u: "[L ..< L + Suc (length es)] = L # [Suc L ..< Suc L + length es]"
    using upt_conv_Cons [of L "L + Suc (length es)"] by (simp del: upt_Suc)
  have "copy_entries (h0 @ ext) (e # es)
     = (L # [Suc L ..< Suc L + length es],
        h0 @ ext @ ObjCell (own_props h0 e) # map (\<lambda>e. ObjCell (own_props h0 e)) es)"
    using ih by (simp add: alloc_def op L_def del: upt_Suc)
  then show ?case
    unfolding u [symmetric] by (simp add: L_def del: upt_Suc)
qed


lemma concat_Ref:
  "concat (map ((\<lambda>x. case x of Ref b \<Rightarrow> [b] | _ \<Rightarrow> []) \<circ> Ref) cs) = cs"
  by (induction cs) simp_all

lemma list_cells_fresh:
  assumes "cell_at h a = Some (ArrCell (map Ref cs @ rest))" and "length cs = n"
  shows "list_cells h n (Ref a) = a # cs"
  using assms by (simp add: list_cells_def array_elements_def concat_Ref)

lemma fresh_copies_cells:
  assumes "fresh_copies h0 entries h a"
  shows "\<forall>x \<in> set (list_cells h (length entries) (Ref a)). length h0 \<le> x \<and> x \<le> a \<and> x < length h"
    and "length (list_cells h (length entries) (Ref a)) = Suc (length entries)"
    and "distinct (list_cells h (length entries) (Ref a))"
proof -
  from assms obtain cs rest where c: "cell_at h a = Some (ArrCell (map Ref cs @ rest))"
    "length cs = length entries" "distinct cs" "length h0 \<le> a"
    "\<forall>x \<in> set cs. length h0 \<le> x \<and> x < a"
    unfolding fresh_copies_def by blast
  have lc: "list_cells h (length entries) (Ref a) = a # cs"
    using c(1,2) by (rule list_cells_fresh)
  have al: "a < length h" using c(1) by (simp add: cell_at_def split: if_splits)
  show "\<forall>x \<in> set (list_cells h (length entries) (Ref a)).
          length h0 \<le> x \<and> x \<le> a \<and> x < length h"
    unfolding lc using c(4,5) al by auto
  show "length (list_cells h (length entries) (Ref a)) = Suc (length entries)"
    unfolding lc using c(2) by simp
  show "distinct (list_cells h (length entries) (Ref a))"
    unfolding lc using c(3,5) by auto
qed

lemma fresh_copies_append:
  assumes "fresh_copies h0 entries h a"
  shows "fresh_copies h0 entries (h @ added) a"
    and "list_cells (h @ added) n (Ref a) = list_cells h n (Ref a)"
proof -
  from assms obtain cs rest where c: "cell_at h a = Some (ArrCell (map Ref cs @ rest))"
    "length cs = length entries" "distinct cs" "length h0 \<le> a"
    "\<forall>x \<in> set cs. length h0 \<le> x \<and> x < a"
    "\<forall>i < length entries. cell_at h (cs ! i) = Some (ObjCell (own_props h0 (entries ! i)))"
    "list_all (h_valid h0) rest"
    unfolding fresh_copies_def by blast
  have al: "a < length h" using c(1) by (simp add: cell_at_def split: if_splits)
  have ca: "cell_at (h @ added) a = cell_at h a" using al by (rule cell_at_append)
  have "\<forall>i < length entries. cell_at (h @ added) (cs ! i) = cell_at h (cs ! i)"
  proof (intro allI impI)
    fix i assume "i < length entries"
    with c(2,5) have "cs ! i < a" by (metis nth_mem)
    with al show "cell_at (h @ added) (cs ! i) = cell_at h (cs ! i)"
      by (intro cell_at_append) simp
  qed
  with c ca show "fresh_copies h0 entries (h @ added) a"
    unfolding fresh_copies_def by (intro exI [of _ cs] exI [of _ rest]) simp
  show "list_cells (h @ added) n (Ref a) = list_cells h n (Ref a)"
    by (simp add: list_cells_def array_elements_def ca)
qed

lemma loop_inv_step:
  assumes inv: "loop_inv h0 entries result h"
    and new: "fresh_copies h0 entries (h @ added) a"
    and above: "\<forall>x \<in> set (list_cells (h @ added) (length entries) (Ref a)). length h \<le> x"
  shows "loop_inv h0 entries (assign result key (Ref a)) (h @ added)"
proof (cases "key = ''__proto__''")
  case True
  from inv have ext: "\<exists>ext. h @ added = h0 @ ext" unfolding loop_inv_def by auto
  from inv have b: "\<forall>p v. result p = Some v \<longrightarrow> (\<exists>a. v = Ref a \<and> fresh_copies h0 entries h a)"
    unfolding loop_inv_def by blast
  from inv have d: "\<forall>p q vp vq. p \<noteq> q \<and> result p = Some vp \<and> result q = Some vq \<longrightarrow>
            set (list_cells h (length entries) vp) \<inter> set (list_cells h (length entries) vq) = {}"
    unfolding loop_inv_def by blast
  have b': "\<forall>p v. result p = Some v \<longrightarrow>
      (\<exists>a. v = Ref a \<and> fresh_copies h0 entries (h @ added) a)"
    using b fresh_copies_append(1) by blast
  have d': "\<forall>p q vp vq. p \<noteq> q \<and> result p = Some vp \<and> result q = Some vq \<longrightarrow>
            set (list_cells (h @ added) (length entries) vp)
            \<inter> set (list_cells (h @ added) (length entries) vq) = {}"
  proof (intro allI impI)
    fix p q vp vq
    assume h: "p \<noteq> q \<and> result p = Some vp \<and> result q = Some vq"
    with b obtain ap aq where "vp = Ref ap" "fresh_copies h0 entries h ap"
      "vq = Ref aq" "fresh_copies h0 entries h aq" by blast
    with d h show "set (list_cells (h @ added) (length entries) vp)
            \<inter> set (list_cells (h @ added) (length entries) vq) = {}"
      by (simp add: fresh_copies_append(2))
  qed
  from True ext b' d' show ?thesis by (simp add: loop_inv_def assign_def)
next
  case False
  from inv have ext: "\<exists>ext. h @ added = h0 @ ext" unfolding loop_inv_def by auto
  from inv have b: "\<forall>p v. result p = Some v \<longrightarrow> (\<exists>a. v = Ref a \<and> fresh_copies h0 entries h a)"
    unfolding loop_inv_def by blast
  from inv have d: "\<forall>p q vp vq. p \<noteq> q \<and> result p = Some vp \<and> result q = Some vq \<longrightarrow>
            set (list_cells h (length entries) vp) \<inter> set (list_cells h (length entries) vq) = {}"
    unfolding loop_inv_def by blast
  let ?r = "result(key \<mapsto> Ref a)"
  have old: "set (list_cells (h @ added) (length entries) v) = set (list_cells h (length entries) v)
             \<and> (\<forall>x \<in> set (list_cells h (length entries) v). x < length h)
             \<and> (\<exists>b. v = Ref b \<and> fresh_copies h0 entries (h @ added) b)"
    if "result p = Some v" for p v
  proof -
    from b that obtain c where c: "v = Ref c" "fresh_copies h0 entries h c" by blast
    from fresh_copies_cells(1) [OF c(2)] fresh_copies_append [OF c(2)] c(1)
    show ?thesis by auto
  qed
  have b': "\<forall>p v. ?r p = Some v \<longrightarrow> (\<exists>a. v = Ref a \<and> fresh_copies h0 entries (h @ added) a)"
    using old new by (auto split: if_splits)
  have d': "\<forall>p q vp vq. p \<noteq> q \<and> ?r p = Some vp \<and> ?r q = Some vq \<longrightarrow>
            set (list_cells (h @ added) (length entries) vp)
            \<inter> set (list_cells (h @ added) (length entries) vq) = {}"
  proof (intro allI impI)
    fix p q vp vq
    assume h: "p \<noteq> q \<and> ?r p = Some vp \<and> ?r q = Some vq"
    consider "p = key" | "q = key" | "p \<noteq> key" "q \<noteq> key" by blast
    then show "set (list_cells (h @ added) (length entries) vp)
            \<inter> set (list_cells (h @ added) (length entries) vq) = {}"
    proof cases
      case 1
      with h have vp: "vp = Ref a" and q: "result q = Some vq" by auto
      from old [OF q] above show ?thesis unfolding vp by fastforce
    next
      case 2
      with h have vq: "vq = Ref a" and p: "result p = Some vp" by auto
      from old [OF p] above show ?thesis unfolding vq by fastforce
    next
      case 3
      with h have p: "result p = Some vp" and q: "result q = Some vq" by auto
      from old [OF p] old [OF q] d h p q show ?thesis by blast
    qed
  qed
  from False ext b' d' show ?thesis by (simp add: loop_inv_def assign_def)
qed

subsection \<open>The loops keep their invariant\<close>

lemma closed_cell:
  assumes "closed h" and "cell_at h a = Some c"
  shows "list_all (h_valid h) (cell_vals c)"
proof -
  from assms(2) have "a < length h" and "c = h ! a"
    by (simp_all add: cell_at_def split: if_splits)
  then have "c \<in> set h" by simp
  with assms(1) show ?thesis by (simp add: closed_def list_all_iff)
qed

lemma own_props_valid:
  assumes "closed h" and "h_valid h v"
  shows "list_all (h_valid h) (map snd (own_props h v))"
proof (cases v)
  case (HStr s)
  then show ?thesis by (simp add: own_props_def list_all_iff h_valid_def)
next
  case (Ref a)
  show ?thesis
  proof (cases "cell_at h a")
    case None
    with Ref show ?thesis by (simp add: own_props_def)
  next
    case (Some c)
    from closed_cell [OF assms(1) Some] have v: "list_all (h_valid h) (cell_vals c)" .
    show ?thesis
    proof (cases c)
      case (ArrCell vs)
      with v Ref Some show ?thesis by (simp add: own_props_def)
    next
      case (ObjCell kvs)
      with v Ref Some show ?thesis by (simp add: own_props_def)
    qed
  qed
qed (simp_all add: own_props_def)

lemma get_own_valid:
  assumes "closed h" and "h_valid h v"
  shows "h_valid h (get_own h v key)"
proof (cases "map_of (own_props h v) key")
  case None
  then show ?thesis by (simp add: get_own_def h_valid_def)
next
  case (Some x)
  then have "x \<in> snd ` set (own_props h v)" by (metis map_of_SomeD image_eqI snd_conv)
  with own_props_valid [OF assms] have "h_valid h x" by (auto simp: list_all_iff)
  with Some show ?thesis by (simp add: get_own_def)
qed

lemma iterate_valid:
  assumes "closed h" and "h_valid h v" and "iterate (h @ ext) v = Inr xs"
  shows "list_all (h_valid h) xs"
proof (cases v)
  case (HStr s)
  with assms(3) show ?thesis by (auto simp: iterate_def list_all_iff h_valid_def)
next
  case (Ref a)
  with assms(2) have a: "a < length h" by (simp add: h_valid_def)
  then have ca: "cell_at (h @ ext) a = cell_at h a" by (rule cell_at_append)
  from assms(3) Ref ca obtain vs where vs: "cell_at h a = Some (ArrCell vs)" and "xs = vs"
    by (auto simp: iterate_def split: option.splits cell.splits)
  with closed_cell [OF assms(1) vs] show ?thesis by simp
qed (insert assms(3), simp_all add: iterate_def)

lemma map_copy_Inr:
  assumes "h_valid h0 cd" and "map_copy (h0 @ ext) cd = Inr r"
  shows "\<exists>c. cd = Ref c \<and> cell_at h0 c = Some (ArrCell (array_elements h0 cd))"
proof -
  from assms(2) obtain c where c: "cd = Ref c"
    by (cases cd) (simp_all add: map_copy_def)
  with assms(1) have "c < length h0" by (simp add: h_valid_def)
  then have ca: "cell_at (h0 @ ext) c = cell_at h0 c" by (rule cell_at_append)
  from assms(2) c ca obtain es where "cell_at h0 c = Some (ArrCell es)"
    by (auto simp: map_copy_def split: option.splits cell.splits)
  with c show ?thesis by (simp add: array_elements_def)
qed

lemma map_copy_eq:
  assumes "cell_at h0 c = Some (ArrCell entries)" and "list_all (h_valid h0) entries"
  shows "map_copy (h0 @ ext) (Ref c)
     = Inr (length (h0 @ ext) + length entries,
            (h0 @ ext) @ map (\<lambda>e. ObjCell (own_props h0 e)) entries
              @ [ArrCell (map Ref [length (h0 @ ext) ..< length (h0 @ ext) + length entries])])"
proof -
  from assms(1) have "c < length h0" by (simp add: cell_at_def split: if_splits)
  then have ca: "cell_at (h0 @ ext) c = Some (ArrCell entries)"
    using assms(1) by (simp add: cell_at_append)
  show ?thesis
    by (simp add: map_copy_def ca copy_entries_eq [OF assms(2)] alloc_def del: upt_Suc)
qed

lemma fresh_copies_new:
  assumes "length h0 \<le> length h" and "list_all (h_valid h0) rest"
  shows "fresh_copies h0 entries
           (h @ map (\<lambda>e. ObjCell (own_props h0 e)) entries @ mid
              @ [ArrCell (map Ref [length h ..< length h + length entries] @ rest)])
           (length h + length entries + length mid)"
    and "\<forall>x \<in> set (list_cells
           (h @ map (\<lambda>e. ObjCell (own_props h0 e)) entries @ mid
              @ [ArrCell (map Ref [length h ..< length h + length entries] @ rest)])
           (length entries) (Ref (length h + length entries + length mid))). length h \<le> x"
proof -
  let ?cs = "[length h ..< length h + length entries]"
  let ?a = "length h + length entries + length mid"
  let ?h = "h @ map (\<lambda>e. ObjCell (own_props h0 e)) entries @ mid @ [ArrCell (map Ref ?cs @ rest)]"
  have ca: "cell_at ?h ?a = Some (ArrCell (map Ref ?cs @ rest))"
    by (simp add: cell_at_def nth_append del: upt_Suc)
  have ci: "\<forall>i < length entries. cell_at ?h (?cs ! i) = Some (ObjCell (own_props h0 (entries ! i)))"
    by (simp add: cell_at_def nth_append del: upt_Suc)
  have len: "length ?cs = length entries" by simp
  have bd: "\<forall>x \<in> set ?cs. length h0 \<le> x \<and> x < ?a" using assms(1) by auto
  from ca len bd ci assms show "fresh_copies h0 entries ?h ?a"
    unfolding fresh_copies_def
    by (intro exI [of _ ?cs] exI [of _ rest]) (simp del: upt_Suc)
  have lc: "list_cells ?h (length entries) (Ref ?a) = ?a # ?cs"
    using ca len by (rule list_cells_fresh)
  show "\<forall>x \<in> set (list_cells ?h (length entries) (Ref ?a)). length h \<le> x"
    unfolding lc by auto
qed

lemma fixed_loop_inv:
  assumes "cell_at h0 c = Some (ArrCell entries)" and "list_all (h_valid h0) entries"
    and "loop_inv h0 entries result h"
  shows "\<exists>result' h'. fixed_loop (Ref c) powers result h = Inr (result', h')
           \<and> loop_inv h0 entries result' h'
           \<and> dom result' = dom result \<union> (set powers - {''__proto__''})"
  using assms(3)
proof (induction powers arbitrary: result h)
  case Nil
  then show ?case by simp
next
  case (Cons p ps)
  from Cons.prems obtain ext where h: "h = h0 @ ext" unfolding loop_inv_def by blast
  let ?added = "map (\<lambda>e. ObjCell (own_props h0 e)) entries
      @ [ArrCell (map Ref [length h ..< length h + length entries])]"
  let ?a = "length h + length entries"
  have mc: "map_copy h (Ref c) = Inr (?a, h @ ?added)"
    unfolding h using map_copy_eq [OF assms(1,2), of ext] by simp
  have le: "length h0 \<le> length h" unfolding h by simp
  from fresh_copies_new [OF le, of "[]" entries "[]"]
  have new: "fresh_copies h0 entries (h @ ?added) ?a"
    and above: "\<forall>x \<in> set (list_cells (h @ ?added) (length entries) (Ref ?a)). length h \<le> x"
    by simp_all
  from loop_inv_step [OF Cons.prems new above]
  have inv: "loop_inv h0 entries (assign result p (Ref ?a)) (h @ ?added)" .
  from Cons.IH [OF inv] obtain result' h' where
    r: "fixed_loop (Ref c) ps (assign result p (Ref ?a)) (h @ ?added) = Inr (result', h')"
      "loop_inv h0 entries result' h'"
      "dom result' = dom (assign result p (Ref ?a)) \<union> (set ps - {''__proto__''})"
    by blast
  have d: "dom (assign result p (Ref ?a)) \<union> (set ps - {''__proto__''})
         = dom result \<union> (set (p # ps) - {''__proto__''})"
    by (auto simp: assign_def)
  from r d mc show ?case by simp
qed

lemma catalog_loop_inv:
  assumes "closed h0" and "h_valid h0 cd" and "h_valid h0 sd"
    and "loop_inv h0 entries result h"
    and "catalog_loop cd sd powers result h = Inr (result', h')"
    and ae: "array_elements h0 cd = entries"
  shows "loop_inv h0 entries result' h'"
  using assms(4,5)
proof (induction powers arbitrary: result h)
  case Nil
  then show ?case by simp
next
  case (Cons p ps)
  from Cons.prems(1) obtain ext where h: "h = h0 @ ext" unfolding loop_inv_def by blast
  from Cons.prems(2) obtain r where mcr: "map_copy h cd = Inr r"
    by (cases "map_copy h cd") simp_all
  from map_copy_Inr [OF assms(2) mcr [unfolded h]] obtain c where
    cd: "cd = Ref c" and cc: "cell_at h0 c = Some (ArrCell entries)" unfolding ae by blast
  from closed_cell [OF assms(1) cc] have ev: "list_all (h_valid h0) entries" by simp
  let ?cs = "[length h ..< length h + length entries]"
  let ?objs = "map (\<lambda>e. ObjCell (own_props h0 e)) entries"
  let ?h1 = "h @ ?objs @ [ArrCell (map Ref ?cs)]"
  let ?a1 = "length h + length entries"
  have mc: "map_copy h cd = Inr (?a1, ?h1)"
    unfolding h cd using map_copy_eq [OF cc ev, of ext] by simp
  have it: "iterate ?h1 (Ref ?a1) = Inr (map Ref ?cs)"
    by (simp add: iterate_def cell_at_def nth_append del: upt_Suc)
  have h1: "?h1 = h0 @ (ext @ ?objs @ [ArrCell (map Ref ?cs)])" unfolding h by simp
  let ?v = "get_own ?h1 sd p"
  have gv: "?v = get_own h0 sd p"
    unfolding h1 get_own_def using own_props_append [OF assms(3)] by simp
  have vv: "h_valid h0 ?v" unfolding gv using assms(1,3) by (rule get_own_valid)
  from Cons.prems(2) mc it obtain sub where
    sub: "(if h_truthy ?v then iterate ?h1 ?v else Inr []) = Inr sub"
    and rest: "catalog_loop cd sd ps (assign result p (Ref (length ?h1)))
                 (?h1 @ [ArrCell (map Ref ?cs @ sub)]) = Inr (result', h')"
    by (auto simp: alloc_def split: sum.splits simp del: upt_Suc)
  have sv: "list_all (h_valid h0) sub"
  proof (cases "h_truthy ?v")
    case True
    with sub have "iterate (h0 @ (ext @ ?objs @ [ArrCell (map Ref ?cs)])) ?v = Inr sub"
      unfolding h1 [symmetric] by simp
    from iterate_valid [OF assms(1) vv this] show ?thesis .
  next
    case False
    with sub show ?thesis by simp
  qed
  have le: "length h0 \<le> length h" unfolding h by simp
  let ?added = "?objs @ [ArrCell (map Ref ?cs)] @ [ArrCell (map Ref ?cs @ sub)]"
  from fresh_copies_new [OF le sv, of entries "[ArrCell (map Ref ?cs)]"]
  have new: "fresh_copies h0 entries (h @ ?added) (Suc ?a1)"
    and above: "\<forall>x \<in> set (list_cells (h @ ?added) (length entries) (Ref (Suc ?a1))).
                  length h \<le> x"
    by simp_all
  from loop_inv_step [OF Cons.prems(1) new above]
  have inv: "loop_inv h0 entries (assign result p (Ref (Suc ?a1))) (h @ ?added)" .
  have e1: "length ?h1 = Suc ?a1" by simp
  have e2: "?h1 @ [ArrCell (map Ref ?cs @ sub)] = h @ ?added" by simp
  from rest have "catalog_loop cd sd ps (assign result p (Ref (Suc ?a1))) (h @ ?added)
                    = Inr (result', h')"
    unfolding e1 e2 .
  from Cons.IH [OF inv this] show ?case .
qed

subsection \<open>Reading the lists of a result\<close>

lemma cell_at_base:
  assumes "take (length h0) g = h0" and "a < length h0"
  shows "cell_at g a = Some (h0 ! a)"
proof -
  from assms(1) have "length (take (length h0) g) = length h0" by simp
  then have "length h0 \<le> length g" by simp
  moreover have "take (length h0) g ! a = g ! a" using assms(2) by simp
  then have "g ! a = h0 ! a" unfolding assms(1) by simp
  ultimately show ?thesis using assms(2) by (simp add: cell_at_def)
qed

lemma reify_base:
  assumes "closed h0" and "take (length h0) g = h0"
  shows "h_valid h0 v \<Longrightarrow> reify k g v = reify k h0 v"
proof (induction k arbitrary: v)
  case 0
  then show ?case by (cases v) simp_all
next
  case (Suc k)
  show ?case
  proof (cases v)
    case (Ref a)
    with Suc.prems have a: "a < length h0" by (simp add: h_valid_def)
    have cg: "cell_at g a = Some (h0 ! a)" using assms(2) a by (rule cell_at_base)
    have c0: "cell_at h0 a = Some (h0 ! a)" using a by (simp add: cell_at_def)
    from closed_cell [OF assms(1) c0] have v: "list_all (h_valid h0) (cell_vals (h0 ! a))" .
    show ?thesis
    proof (cases "h0 ! a")
      case (ArrCell vs)
      with v have "\<forall>x \<in> set vs. reify k g x = reify k h0 x"
        using Suc.IH by (simp add: list_all_iff)
      with Ref cg c0 ArrCell show ?thesis by simp
    next
      case (ObjCell kvs)
      with v have "\<forall>x \<in> set kvs. reify k g (snd x) = reify k h0 (snd x)"
        using Suc.IH by (simp add: list_all_iff)
      then have "map (\<lambda>(name, v). (name, reify k g v)) kvs
               = map (\<lambda>(name, v). (name, reify k h0 v)) kvs"
        by (auto simp: case_prod_beta)
      with Ref cg c0 ObjCell show ?thesis by simp
    qed
  qed simp_all
qed

lemma reify_copy:
  assumes "closed h0" and "take (length h0) g = h0" and "h_valid h0 e"
    and "cell_at g b = Some (ObjCell (own_props h0 e))"
  shows "reify k g (Ref b) = spread k h0 e"
proof (cases k)
  case 0
  then show ?thesis by simp
next
  case (Suc j)
  from own_props_valid [OF assms(1,3)]
  have "\<forall>x \<in> set (own_props h0 e). reify j g (snd x) = reify j h0 (snd x)"
    using reify_base [OF assms(1,2)] by (simp add: list_all_iff)
  then have "map (\<lambda>(name, v). (name, reify j g v)) (own_props h0 e)
           = map (\<lambda>(name, v). (name, reify j h0 v)) (own_props h0 e)"
    by (auto simp: case_prod_beta)
  with Suc assms(4) show ?thesis by simp
qed

lemma reify_copies:
  assumes "closed h0" and "take (length h0) g = h0" and "list_all (h_valid h0) entries"
    and "cell_at g a = Some (ArrCell (map Ref cs @ rest))"
    and "length cs = length entries"
    and "\<forall>i < length entries. cell_at g (cs ! i) = Some (ObjCell (own_props h0 (entries ! i)))"
    and "list_all (h_valid h0) rest"
  shows "reify (Suc k) g (Ref a) = Arr (map (spread k h0) entries @ map (reify k h0) rest)"
proof -
  have r: "map (reify k g) rest = map (reify k h0) rest"
    using assms(7) reify_base [OF assms(1,2)] by (simp add: list_all_iff)
  have c: "map (reify k g \<circ> Ref) cs = map (spread k h0) entries"
  proof (rule nth_equalityI)
    show "length (map (reify k g \<circ> Ref) cs) = length (map (spread k h0) entries)"
      using assms(5) by simp
  next
    fix i
    assume "i < length (map (reify k g \<circ> Ref) cs)"
    with assms(5) have i: "i < length entries" by simp
    with assms(3) have e: "h_valid h0 (entries ! i)" by (simp add: list_all_length)
    from assms(6) i have "cell_at g (cs ! i) = Some (ObjCell (own_props h0 (entries ! i)))"
      by simp
    from reify_copy [OF assms(1,2) e this] i assms(5)
    show "map (reify k g \<circ> Ref) cs ! i = map (spread k h0) entries ! i" by simp
  qed
  from assms(4) r c show ?thesis by simp
qed

lemma cell_at_update: "x \<noteq> w \<Longrightarrow> cell_at (h[w := c]) x = cell_at h x"
  by (simp add: cell_at_def)

lemma reify_frame:
  assumes "closed h0" and "h = h0 @ ext" and "list_all (h_valid h0) entries"
    and "fresh_copies h0 entries h a" and "length h0 \<le> w"
    and "w \<notin> set (list_cells h (length entries) (Ref a))"
  shows "reify k (h[w := c]) (Ref a) = reify k h (Ref a)"
proof (cases k)
  case 0
  then show ?thesis by simp
next
  case (Suc j)
  from assms(4) obtain cs rest where f: "cell_at h a = Some (ArrCell (map Ref cs @ rest))"
    "length cs = length entries"
    "\<forall>i < length entries. cell_at h (cs ! i) = Some (ObjCell (own_props h0 (entries ! i)))"
    "list_all (h_valid h0) rest"
    unfolding fresh_copies_def by blast
  have lc: "list_cells h (length entries) (Ref a) = a # cs"
    using f(1,2) by (rule list_cells_fresh)
  from assms(6) have wa: "a \<noteq> w" and wc: "w \<notin> set cs" unfolding lc by auto
  have t1: "take (length h0) h = h0" unfolding assms(2) by simp
  have t2: "take (length h0) (h[w := c]) = h0"
    using assms(5) t1 by (simp add: take_update_cancel)
  have u1: "cell_at (h[w := c]) a = Some (ArrCell (map Ref cs @ rest))"
    using wa f(1) by (simp add: cell_at_update)
  have u2: "\<forall>i < length entries.
      cell_at (h[w := c]) (cs ! i) = Some (ObjCell (own_props h0 (entries ! i)))"
  proof (intro allI impI)
    fix i assume i: "i < length entries"
    with f(2) have "cs ! i \<in> set cs" by simp
    with wc have "cs ! i \<noteq> w" by auto
    with f(3) i show "cell_at (h[w := c]) (cs ! i) = Some (ObjCell (own_props h0 (entries ! i)))"
      by (simp add: cell_at_update)
  qed
  show ?thesis
    unfolding Suc reify_copies [OF assms(1) t1 assms(3) f(1,2,3,4)]
      reify_copies [OF assms(1) t2 assms(3) u1 f(2) u2 f(4)] ..
qed

lemma array_elements_valid:
  assumes "closed h0"
  shows "list_all (h_valid h0) (array_elements h0 cd)"
proof (cases cd)
  case (Ref a)
  show ?thesis
  proof (cases "cell_at h0 a")
    case None
    with Ref show ?thesis by (simp add: array_elements_def)
  next
    case (Some c)
    from closed_cell [OF assms Some] Ref Some show ?thesis
      by (cases c) (simp_all add: array_elements_def)
  qed
qed (simp_all add: array_elements_def)

lemma loop_inv_fresh_lists:
  assumes "closed h0" and "loop_inv h0 (array_elements h0 cd) result h"
  shows "fresh_lists h0 cd result h"
  unfolding fresh_lists_def
proof (intro allI impI)
  fix p vp
  let ?entries = "array_elements h0 cd"
  assume "result p = Some vp"
  with assms(2) obtain a where vp: "vp = Ref a" and f: "fresh_copies h0 ?entries h a"
    unfolding loop_inv_def by blast
  from assms(2) obtain ext where h: "h = h0 @ ext" unfolding loop_inv_def by blast
  from f obtain cs rest where c: "cell_at h a = Some (ArrCell (map Ref cs @ rest))"
    "length cs = length ?entries"
    "\<forall>i < length ?entries. cell_at h (cs ! i) = Some (ObjCell (own_props h0 (?entries ! i)))"
    "list_all (h_valid h0) rest"
    unfolding fresh_copies_def by blast
  have t1: "take (length h0) h = h0" unfolding h by simp
  have r: "\<forall>k. take (length ?entries) (elements (reify (Suc k) h vp))
               = map (spread k h0) ?entries"
    unfolding vp reify_copies [OF assms(1) t1 array_elements_valid [OF assms(1)] c]
    by simp
  from fresh_copies_cells [OF f] r
  show "length (list_cells h (length ?entries) vp) = Suc (length ?entries)
      \<and> distinct (list_cells h (length ?entries) vp)
      \<and> (\<forall>w \<in> set (list_cells h (length ?entries) vp). length h0 \<le> w \<and> w < length h)
      \<and> (\<forall>k. take (length ?entries) (elements (reify (Suc k) h vp))
               = map (spread k h0) ?entries)"
    unfolding vp by simp
qed

lemma loop_inv_isolated:
  assumes "closed h0" and "loop_inv h0 (array_elements h0 cd) result h"
  shows "isolated h0 cd result h"
  unfolding isolated_def
proof (intro allI impI)
  fix p q vp vq
  let ?entries = "array_elements h0 cd"
  assume a: "p \<noteq> q \<and> result p = Some vp \<and> result q = Some vq"
  with assms(2) obtain ap aq where vp: "vp = Ref ap" and fp: "fresh_copies h0 ?entries h ap"
    and vq: "vq = Ref aq" and fq: "fresh_copies h0 ?entries h aq"
    unfolding loop_inv_def by blast
  from assms(2) obtain ext where h: "h = h0 @ ext" unfolding loop_inv_def by blast
  from assms(2) a have d: "set (list_cells h (length ?entries) vp)
      \<inter> set (list_cells h (length ?entries) vq) = {}"
    unfolding loop_inv_def by blast
  have fr: "\<forall>w \<in> set (list_cells h (length ?entries) vp).
              \<forall>c k. reify k (h[w := c]) vq = reify k h vq"
  proof (intro ballI allI)
    fix w c k
    assume w: "w \<in> set (list_cells h (length ?entries) vp)"
    with fresh_copies_cells(1) [OF fp] have lo: "length h0 \<le> w" unfolding vp by blast
    from w d have nq: "w \<notin> set (list_cells h (length ?entries) (Ref aq))" unfolding vq by blast
    from reify_frame [OF assms(1) h array_elements_valid [OF assms(1)] fq lo nq]
    show "reify k (h[w := c]) vq = reify k h vq" unfolding vq .
  qed
  from d fr show "set (list_cells h (length ?entries) vp)
          \<inter> set (list_cells h (length ?entries) vq) = {}
      \<and> (\<forall>w \<in> set (list_cells h (length ?entries) vp).
            \<forall>c k. reify k (h[w := c]) vq = reify k h vq)" ..
qed

lemma loop_inv_empty: "loop_inv h0 entries Map.empty h0"
  by (simp add: loop_inv_def)

lemma fixed_loop_Inr:
  assumes "h_valid h0 cd" and "fixed_loop cd (p # ps) result (h0 @ ext) = Inr r"
  shows "\<exists>c. cd = Ref c \<and> cell_at h0 c = Some (ArrCell (array_elements h0 cd))"
proof -
  from assms(2) obtain r1 where "map_copy (h0 @ ext) cd = Inr r1"
    by (cases "map_copy (h0 @ ext) cd") simp_all
  from map_copy_Inr [OF assms(1) this] show ?thesis .
qed

text \<open>
  Claim C8. Let the store \<open>h0\<close> hold no dangling reference and let \<open>contractData\<close> and
  \<open>subscriptionData\<close> be values of it. Whenever the converter with the subscription
  table returns, and whenever the converter with the fixed list returns: the list bound
  to each power level is an array whose first elements are new objects, one for each
  catalog entry, distinct from each other and from every cell of \<open>h0\<close>, each reading as
  the spread of its entry; the lists bound to two different power levels have no cell
  in common; and whatever is written into the array of one list or into one of its
  records, the list of the other power level reads as before, to every depth.
\<close>

theorem static_catalog_isolation:
  assumes "closed h0" and "h_valid h0 contractData" and "h_valid h0 subscriptionData"
  shows "(\<forall>result h.
            processBaseOptions_catalog h0 contractData subscriptionData = Inr (result, h) \<longrightarrow>
            fresh_lists h0 contractData result h \<and> isolated h0 contractData result h)
       \<and> (\<forall>result h.
            processBaseOptions_fixed h0 contractData = Inr (result, h) \<longrightarrow>
            fresh_lists h0 contractData result h \<and> isolated h0 contractData result h)"
proof (intro conjI allI impI)
  fix result h
  assume run: "processBaseOptions_catalog h0 contractData subscriptionData = Inr (result, h)"
  then obtain powers where
    "catalog_loop contractData subscriptionData powers Map.empty h0 = Inr (result, h)"
    by (auto simp: processBaseOptions_catalog_def split: sum.splits)
  from catalog_loop_inv [OF assms loop_inv_empty this refl]
  have inv: "loop_inv h0 (array_elements h0 contractData) result h" .
  show "fresh_lists h0 contractData result h" using assms(1) inv by (rule loop_inv_fresh_lists)
  show "isolated h0 contractData result h" using assms(1) inv by (rule loop_inv_isolated)
next
  fix result h
  assume run: "processBaseOptions_fixed h0 contractData = Inr (result, h)"
  obtain p ps where sp: "subscribedPowers = p # ps" by (simp add: subscribedPowers_def)
  from run have fl: "fixed_loop contractData (p # ps) Map.empty (h0 @ []) = Inr (result, h)"
    by (simp add: processBaseOptions_fixed_def sp)
  from fixed_loop_Inr [OF assms(2) fl] obtain c where cd: "contractData = Ref c"
    and cc: "cell_at h0 c = Some (ArrCell (array_elements h0 contractData))" by blast
  from fixed_loop_inv [OF cc array_elements_valid [OF assms(1)] loop_inv_empty, of "p # ps"]
    fl cd
  have inv: "loop_inv h0 (array_elements h0 contractData) result h" by auto
  show "fresh_lists h0 contractData result h" using assms(1) inv by (rule loop_inv_fresh_lists)
  show "isolated h0 contractData result h" using assms(1) inv by (rule loop_inv_isolated)
qed

subsection \<open>The converter with the fixed list\<close>

lemma array_elements_append:
  "a < length h \<Longrightarrow> array_elements (h @ added) (Ref a) = array_elements h (Ref a)"
  by (simp add: array_elements_def cell_at_append)

lemma fixed_loop_exact:
  assumes "cell_at h0 c = Some (ArrCell entries)" and "list_all (h_valid h0) entries"
  shows "h = h0 @ ext \<Longrightarrow>
         \<forall>p v. result p = Some v \<longrightarrow>
           (\<exists>a. v = Ref a \<and> a < length h \<and> length (array_elements h v) = length entries) \<Longrightarrow>
         fixed_loop (Ref c) powers result h = Inr (result', h') \<Longrightarrow>
         \<forall>p v. result' p = Some v \<longrightarrow>
           (\<exists>a. v = Ref a \<and> a < length h' \<and> length (array_elements h' v) = length entries)"
proof (induction powers arbitrary: result h ext)
  case Nil
  from Nil.prems(3) have "result' = result" and "h' = h" by simp_all
  with Nil.prems(2) show ?case by simp
next
  case (Cons p ps)
  note h = Cons.prems(1)
  let ?cs = "[length h ..< length h + length entries]"
  let ?added = "map (\<lambda>e. ObjCell (own_props h0 e)) entries @ [ArrCell (map Ref ?cs)]"
  let ?a = "length h + length entries"
  have mc: "map_copy h (Ref c) = Inr (?a, h @ ?added)"
    unfolding h using map_copy_eq [OF assms(1,2), of ext] by simp
  have h1: "h @ ?added = h0 @ (ext @ ?added)" unfolding h by simp
  have new: "array_elements (h @ ?added) (Ref ?a) = map Ref ?cs"
    by (simp add: array_elements_def cell_at_def nth_append del: upt_Suc)
  have inv: "\<forall>q v. assign result p (Ref ?a) q = Some v \<longrightarrow>
           (\<exists>a. v = Ref a \<and> a < length (h @ ?added)
              \<and> length (array_elements (h @ ?added) v) = length entries)"
  proof (intro allI impI)
    fix q v
    assume a: "assign result p (Ref ?a) q = Some v"
    show "\<exists>a. v = Ref a \<and> a < length (h @ ?added)
              \<and> length (array_elements (h @ ?added) v) = length entries"
    proof (cases "v = Ref ?a")
      case True
      show ?thesis unfolding True new by simp
    next
      case False
      with a have "result q = Some v" by (auto simp: assign_def split: if_splits)
      with Cons.prems(2) obtain b where b: "v = Ref b" "b < length h"
        "length (array_elements h v) = length entries" by blast
      then show ?thesis by (simp add: array_elements_append)
    qed
  qed
  from Cons.prems(3) mc
  have "fixed_loop (Ref c) ps (assign result p (Ref ?a)) (h @ ?added) = Inr (result', h')"
    by simp
  from Cons.IH [OF h1 inv this] show ?case .
qed

text \<open>
  The run of the converter with the fixed list on a catalog that is an array: it
  returns, and each of its power levels is bound to an array that reads as the spreads
  of the catalog entries.
\<close>

lemma fixed_run:
  assumes "closed h0" and "cell_at h0 c = Some (ArrCell entries)"
  shows "\<exists>result h.
      processBaseOptions_fixed h0 (Ref c) = Inr (result, h)
    \<and> dom result = set subscribedPowers
    \<and> loop_inv h0 entries result h
    \<and> (\<forall>p \<in> set subscribedPowers. \<exists>a. result p = Some (Ref a)
          \<and> (\<forall>k. reify (Suc k) h (Ref a) = Arr (map (spread k h0) entries)))"
proof -
  from closed_cell [OF assms] have ev: "list_all (h_valid h0) entries" by simp
  from fixed_loop_inv [OF assms(2) ev loop_inv_empty, of subscribedPowers]
  obtain result h where run: "fixed_loop (Ref c) subscribedPowers Map.empty h0 = Inr (result, h)"
    and inv: "loop_inv h0 entries result h"
    and d0: "dom result = dom (Map.empty :: hresult) \<union> (set subscribedPowers - {''__proto__''})"
    by blast
  have np: "''__proto__'' \<notin> set subscribedPowers" by (simp add: subscribedPowers_def)
  from d0 np have d: "dom result = set subscribedPowers" by simp
  from fixed_loop_exact [OF assms(2) ev, of h0 "[]" Map.empty subscribedPowers result h] run
  have ex: "\<forall>p v. result p = Some v \<longrightarrow>
           (\<exists>a. v = Ref a \<and> a < length h \<and> length (array_elements h v) = length entries)"
    by simp
  from inv obtain ext where h: "h = h0 @ ext" unfolding loop_inv_def by blast
  have t1: "take (length h0) h = h0" unfolding h by simp
  have each: "\<forall>p \<in> set subscribedPowers. \<exists>a. result p = Some (Ref a)
          \<and> (\<forall>k. reify (Suc k) h (Ref a) = Arr (map (spread k h0) entries))"
  proof
    fix p
    assume "p \<in> set subscribedPowers"
    with d obtain v where v: "result p = Some v" by blast
    with inv obtain a where a: "v = Ref a" and f: "fresh_copies h0 entries h a"
      unfolding loop_inv_def by blast
    from f obtain cs rest where c: "cell_at h a = Some (ArrCell (map Ref cs @ rest))"
      "length cs = length entries"
      "\<forall>i < length entries. cell_at h (cs ! i) = Some (ObjCell (own_props h0 (entries ! i)))"
      "list_all (h_valid h0) rest"
      unfolding fresh_copies_def by blast
    from ex v a have "length (array_elements h (Ref a)) = length entries" by blast
    with c(1,2) have rest: "rest = []" by (simp add: array_elements_def)
    have "\<forall>k. reify (Suc k) h (Ref a) = Arr (map (spread k h0) entries)"
      unfolding reify_copies [OF assms(1) t1 ev c] rest by simp
    with v a show "\<exists>a. result p = Some (Ref a)
          \<and> (\<forall>k. reify (Suc k) h (Ref a) = Arr (map (spread k h0) entries))" by blast
  qed
  from run d inv each show ?thesis
    unfolding processBaseOptions_fixed_def by blast
qed

lemma map_of_map_values:
  "map_of (map (\<lambda>(name, v). (name, f v)) kvs) name = map_option f (map_of kvs name)"
  by (induction kvs) auto

lemma get_prop_spread: "get_prop (spread (Suc k) h e) name = reify k h (get_own h e name)"
proof -
  have "map_of (map (\<lambda>(name, v). (name, reify k h v)) (own_props h e)) name
      = map_option (reify k h) (map_of (own_props h e) name)"
    by (rule map_of_map_values)
  then show ?thesis by (simp add: get_own_def split: option.splits)
qed

lemma reify_Str: "reify k h v = Str s \<longleftrightarrow> v = HStr s"
proof (cases v)
  case (Ref a)
  then show ?thesis by (cases k) (simp_all split: option.splits cell.splits)
qed simp_all

lemma no_subscription_fails:
  assumes "\<not> list_ex (\<lambda>e. get_own h0 e ''price_type'' = HStr ''subscription'') entries"
  shows "validateContractSpecificRequirements P (map (spread (Suc k) h0) entries) contractType
           = Inl MustHaveSubscription"
proof -
  have 1: "\<not> list_ex (\<lambda>p. p = Null \<or> p = Undefined) (map (spread (Suc k) h0) entries)"
    by (simp add: list_ex_iff)
  have "\<And>e. e \<in> set entries \<Longrightarrow>
          get_prop (spread (Suc k) h0 e) ''price_type'' \<noteq> Str ''subscription''"
    unfolding get_prop_spread reify_Str using assms by (simp add: list_ex_iff)
  then have 2: "filter (\<lambda>p. get_prop p ''price_type'' = Str ''subscription'')
             (map (spread (Suc k) h0) entries) = []"
    by (simp add: filter_empty_conv del: spread.simps)
  show ?thesis
    unfolding validateContractSpecificRequirements_def Let_def using 1 2 by simp
qed

lemma subscribedPowers_range: "subscribedPowers = map nat_to_string [3 ..< 37]"
  by (simp add: subscribedPowers_def upt_rec nat_to_string.simps digit_char_def)

text \<open>
  Claim C10, as the code has it. On a catalog that is an array, the converter with the
  fixed list returns; the keys of its result are the 34 strings \<open>3\<close> to \<open>36\<close>; each key is
  bound to a fresh array, isolated from the arrays of the other keys, that reads as the
  spreads of the catalog entries and nothing else, so the converter adds no record of
  its own; and when no catalog entry has the price type \<open>subscription\<close>,
  \<open>validateContractSpecificRequirements\<close> fails on each list for want of a subscription
  price.
\<close>

theorem fixed_power_list_result:
  assumes "closed h0" and "cell_at h0 c = Some (ArrCell entries)"
  shows "\<exists>result h.
      processBaseOptions_fixed h0 (Ref c) = Inr (result, h)
    \<and> dom result = set subscribedPowers
    \<and> subscribedPowers = map nat_to_string [3 ..< 37]
    \<and> fresh_lists h0 (Ref c) result h
    \<and> isolated h0 (Ref c) result h
    \<and> (\<forall>p \<in> set subscribedPowers. \<exists>a. result p = Some (Ref a)
          \<and> (\<forall>k. reify (Suc k) h (Ref a) = Arr (map (spread k h0) entries))
          \<and> (\<not> list_ex (\<lambda>e. get_own h0 e ''price_type'' = HStr ''subscription'') entries \<longrightarrow>
               (\<forall>P contractType k.
                  validateContractSpecificRequirements P
                    (elements (reify (Suc (Suc k)) h (Ref a))) contractType
                  = Inl MustHaveSubscription)))"
proof -
  from fixed_run [OF assms] obtain result h where
    run: "processBaseOptions_fixed h0 (Ref c) = Inr (result, h)"
    and d: "dom result = set subscribedPowers"
    and inv: "loop_inv h0 entries result h"
    and each: "\<forall>p \<in> set subscribedPowers. \<exists>a. result p = Some (Ref a)
          \<and> (\<forall>k. reify (Suc k) h (Ref a) = Arr (map (spread k h0) entries))"
    by blast
  have ae: "array_elements h0 (Ref c) = entries" using assms(2) by (simp add: array_elements_def)
  from inv have inv': "loop_inv h0 (array_elements h0 (Ref c)) result h" unfolding ae .
  have fl: "fresh_lists h0 (Ref c) result h" using assms(1) inv' by (rule loop_inv_fresh_lists)
  have iso: "isolated h0 (Ref c) result h" using assms(1) inv' by (rule loop_inv_isolated)
  have v: "\<forall>p \<in> set subscribedPowers. \<exists>a. result p = Some (Ref a)
          \<and> (\<forall>k. reify (Suc k) h (Ref a) = Arr (map (spread k h0) entries))
          \<and> (\<not> list_ex (\<lambda>e. get_own h0 e ''price_type'' = HStr ''subscription'') entries \<longrightarrow>
               (\<forall>P contractType k.
                  validateContractSpecificRequirements P
                    (elements (reify (Suc (Suc k)) h (Ref a))) contractType
                  = Inl MustHaveSubscription))"
  proof
    fix p
    assume "p \<in> set subscribedPowers"
    with each obtain a where a: "result p = Some (Ref a)"
      and r: "\<forall>k. reify (Suc k) h (Ref a) = Arr (map (spread k h0) entries)" by blast
    have "\<not> list_ex (\<lambda>e. get_own h0 e ''price_type'' = HStr ''subscription'') entries \<longrightarrow>
               (\<forall>P contractType k.
                  validateContractSpecificRequirements P
                    (elements (reify (Suc (Suc k)) h (Ref a))) contractType
                  = Inl MustHaveSubscription)"
      using r no_subscription_fails [of h0 entries] by simp
    with a r show "\<exists>a. result p = Some (Ref a)
          \<and> (\<forall>k. reify (Suc k) h (Ref a) = Arr (map (spread k h0) entries))
          \<and> (\<not> list_ex (\<lambda>e. get_own h0 e ''price_type'' = HStr ''subscription'') entries \<longrightarrow>
               (\<forall>P contractType k.
                  validateContractSpecificRequirements P
                    (elements (reify (Suc (Suc k)) h (Ref a))) contractType
                  = Inl MustHaveSubscription))" by blast
  qed
  from run d subscribedPowers_range fl iso v show ?thesis by blast
qed

subsection \<open>The example store\<close>

lemma example_store_closed: "closed example_store"
  by (simp add: closed_def example_store_def h_valid_def)

lemma example_catalog_run:
  "processBaseOptions_catalog example_store (Ref 1) (Ref 4)
     = Inr ([''3'' \<mapsto> Ref 7, ''6'' \<mapsto> Ref 10],
            example_store
              @ [ObjCell [(''price_type'', HStr ''consumption''), (''price'', HNum (Fin 1))],
                 ArrCell [Ref 5], ArrCell [Ref 5, Ref 2],
                 ObjCell [(''price_type'', HStr ''consumption''), (''price'', HNum (Fin 1))],
                 ArrCell [Ref 8], ArrCell [Ref 8, Ref 2]])"
  by (simp add: processBaseOptions_catalog_def Object_keys_def own_props_def cell_at_def
      map_copy_def alloc_def iterate_def get_own_def assign_def example_store_def
      eval_nat_numeral)

lemma isolatedD:
  assumes "isolated h0 cd result h" and "p \<noteq> q"
    and "result p = Some vp" and "result q = Some vq"
  shows "set (list_cells h (length (array_elements h0 cd)) vp)
           \<inter> set (list_cells h (length (array_elements h0 cd)) vq) = {}
       \<and> (\<forall>w \<in> set (list_cells h (length (array_elements h0 cd)) vp).
             \<forall>c k. reify k (h[w := c]) vq = reify k h vq)"
  using assms unfolding isolated_def by blast

theorem static_catalog_isolation_witness:
  "closed example_store \<and> h_valid example_store (Ref 1) \<and> h_valid example_store (Ref 4)
   \<and> (\<exists>result h.
         processBaseOptions_catalog example_store (Ref 1) (Ref 4) = Inr (result, h)
       \<and> result ''3'' = Some (Ref 7) \<and> result ''6'' = Some (Ref 10)
       \<and> list_cells h 1 (Ref 7) = [7, 5] \<and> list_cells h 1 (Ref 10) = [10, 8]
       \<and> (\<forall>c k. reify k (h[5 := c]) (Ref 10) = reify k h (Ref 10))
       \<and> (\<forall>c k. reify k (h[7 := c]) (Ref 10) = reify k h (Ref 10)))
   \<and> (\<exists>result h vp vq.
         processBaseOptions_fixed example_store (Ref 1) = Inr (result, h)
       \<and> result ''3'' = Some vp \<and> result ''4'' = Some vq
       \<and> set (list_cells h 1 vp) \<inter> set (list_cells h 1 vq) = {})"
proof -
  let ?res = "[''3'' \<mapsto> Ref 7, ''6'' \<mapsto> Ref 10]"
  let ?h = "example_store
              @ [ObjCell [(''price_type'', HStr ''consumption''), (''price'', HNum (Fin 1))],
                 ArrCell [Ref 5], ArrCell [Ref 5, Ref 2],
                 ObjCell [(''price_type'', HStr ''consumption''), (''price'', HNum (Fin 1))],
                 ArrCell [Ref 8], ArrCell [Ref 8, Ref 2]]"
  have v1: "h_valid example_store (Ref 1)" by (simp add: h_valid_def example_store_def)
  have v4: "h_valid example_store (Ref 4)" by (simp add: h_valid_def example_store_def)
  note iso = static_catalog_isolation [OF example_store_closed v1 v4]
  have n: "length (array_elements example_store (Ref 1)) = 1"
    by (simp add: array_elements_def cell_at_def example_store_def)
  from iso example_catalog_run have iso1: "isolated example_store (Ref 1) ?res ?h" by blast
  have ne: "''3'' \<noteq> ''6''" by simp
  have g3: "?res ''3'' = Some (Ref 7)" by simp
  have g6: "?res ''6'' = Some (Ref 10)" by simp
  from isolatedD [OF iso1 ne g3 g6]
  have fr: "\<forall>w \<in> set (list_cells ?h 1 (Ref 7)).
      \<forall>c k. reify k (?h[w := c]) (Ref 10) = reify k ?h (Ref 10)"
    unfolding n by (rule conjunct2)
  have l7: "list_cells ?h 1 (Ref 7) = [7, 5]"
    by (simp add: list_cells_def array_elements_def cell_at_def example_store_def)
  have l10: "list_cells ?h 1 (Ref 10) = [10, 8]"
    by (simp add: list_cells_def array_elements_def cell_at_def example_store_def)
  from fr have f5: "\<forall>c k. reify k (?h[5 := c]) (Ref 10) = reify k ?h (Ref 10)"
    and f7: "\<forall>c k. reify k (?h[7 := c]) (Ref 10) = reify k ?h (Ref 10)"
    unfolding l7 by simp_all
  have cat: "\<exists>result h.
         processBaseOptions_catalog example_store (Ref 1) (Ref 4) = Inr (result, h)
       \<and> result ''3'' = Some (Ref 7) \<and> result ''6'' = Some (Ref 10)
       \<and> list_cells h 1 (Ref 7) = [7, 5] \<and> list_cells h 1 (Ref 10) = [10, 8]
       \<and> (\<forall>c k. reify k (h[5 := c]) (Ref 10) = reify k h (Ref 10))
       \<and> (\<forall>c k. reify k (h[7 := c]) (Ref 10) = reify k h (Ref 10))"
    using example_catalog_run l7 l10 f5 f7
    by (intro exI [of _ ?res] exI [of _ ?h] conjI) simp_all
  have c1: "cell_at example_store 1 = Some (ArrCell [Ref 0])"
    by (simp add: cell_at_def example_store_def)
  from fixed_run [OF example_store_closed c1] obtain result h where
    run: "processBaseOptions_fixed example_store (Ref 1) = Inr (result, h)"
    and each: "\<forall>p \<in> set subscribedPowers. \<exists>a. result p = Some (Ref a)
          \<and> (\<forall>k. reify (Suc k) h (Ref a) = Arr (map (spread k example_store) [Ref 0]))"
    by blast
  have "''3'' \<in> set subscribedPowers" and "''4'' \<in> set subscribedPowers"
    by (simp_all add: subscribedPowers_def)
  with each obtain a3 a4 where r3: "result ''3'' = Some (Ref a3)"
    and r4: "result ''4'' = Some (Ref a4)" by blast
  from iso run have iso2: "isolated example_store (Ref 1) result h" by blast
  have ne2: "''3'' \<noteq> ''4''" by simp
  from isolatedD [OF iso2 ne2 r3 r4]
  have "set (list_cells h 1 (Ref a3)) \<inter> set (list_cells h 1 (Ref a4)) = {}"
    unfolding n by (rule conjunct1)
  with run r3 r4 have fx: "\<exists>result h vp vq.
         processBaseOptions_fixed example_store (Ref 1) = Inr (result, h)
       \<and> result ''3'' = Some vp \<and> result ''4'' = Some vq
       \<and> set (list_cells h 1 vp) \<inter> set (list_cells h 1 vq) = {}"
    by blast
  from example_store_closed v1 v4 cat fx show ?thesis by (intro conjI)
qed

theorem fixed_power_list_result_witness:
  "closed example_store \<and> cell_at example_store 1 = Some (ArrCell [Ref 0])
   \<and> (\<exists>result h a.
         processBaseOptions_fixed example_store (Ref 1) = Inr (result, h)
       \<and> dom result = set subscribedPowers
       \<and> result ''3'' = Some (Ref a)
       \<and> reify 2 h (Ref a) = Arr [Obj [(''price_type'', Str ''consumption''), (''price'', Num (Fin 1))]]
       \<and> (\<forall>P. validateContractSpecificRequirements P (elements (reify 2 h (Ref a))) ''edf-base''
                = Inl MustHaveSubscription))"
proof -
  have c1: "cell_at example_store 1 = Some (ArrCell [Ref 0])"
    by (simp add: cell_at_def example_store_def)
  from fixed_power_list_result [OF example_store_closed c1] obtain result h where
    run: "processBaseOptions_fixed example_store (Ref 1) = Inr (result, h)"
    and d: "dom result = set subscribedPowers"
    and each: "\<forall>p \<in> set subscribedPowers. \<exists>a. result p = Some (Ref a)
          \<and> (\<forall>k. reify (Suc k) h (Ref a) = Arr (map (spread k example_store) [Ref 0]))
          \<and> (\<not> list_ex (\<lambda>e. get_own example_store e ''price_type'' = HStr ''subscription'')
                  [Ref 0] \<longrightarrow>
               (\<forall>P contractType k.
                  validateContractSpecificRequirements P
                    (elements (reify (Suc (Suc k)) h (Ref a))) contractType
                  = Inl MustHaveSubscription))"
    by blast
  have "''3'' \<in> set subscribedPowers" by (simp add: subscribedPowers_def)
  with each obtain a where a: "result ''3'' = Some (Ref a)"
    and r: "\<forall>k. reify (Suc k) h (Ref a) = Arr (map (spread k example_store) [Ref 0])"
    and v: "\<not> list_ex (\<lambda>e. get_own example_store e ''price_type'' = HStr ''subscription'')
                  [Ref 0] \<longrightarrow>
               (\<forall>P contractType k.
                  validateContractSpecificRequirements P
                    (elements (reify (Suc (Suc k)) h (Ref a))) contractType
                  = Inl MustHaveSubscription)"
    by blast
  have ns: "\<not> list_ex (\<lambda>e. get_own example_store e ''price_type'' = HStr ''subscription'') [Ref 0]"
    by (simp add: get_own_def own_props_def cell_at_def example_store_def)
  from v ns have m: "\<forall>P. validateContractSpecificRequirements P
      (elements (reify (Suc (Suc 0)) h (Ref a))) ''edf-base'' = Inl MustHaveSubscription"
    by blast
  have s: "spread 1 example_store (Ref 0)
         = Obj [(''price_type'', Str ''consumption''), (''price'', Num (Fin 1))]"
    by (simp add: own_props_def cell_at_def example_store_def)
  have two: "(2::nat) = Suc (Suc 0)" by simp
  from r have r2: "reify 2 h (Ref a)
      = Arr [Obj [(''price_type'', Str ''consumption''), (''price'', Num (Fin 1))]]"
    unfolding two using s by simp
  from m have m2: "\<forall>P. validateContractSpecificRequirements P (elements (reify 2 h (Ref a)))
      ''edf-base'' = Inl MustHaveSubscription"
    unfolding two .
  from run d a r2 m2 have "\<exists>result h a.
         processBaseOptions_fixed example_store (Ref 1) = Inr (result, h)
       \<and> dom result = set subscribedPowers
       \<and> result ''3'' = Some (Ref a)
       \<and> reify 2 h (Ref a) = Arr [Obj [(''price_type'', Str ''consumption''), (''price'', Num (Fin 1))]]
       \<and> (\<forall>P. validateContractSpecificRequirements P (elements (reify 2 h (Ref a))) ''edf-base''
                = Inl MustHaveSubscription)"
    by blast
  with example_store_closed c1 show ?thesis by (intro conjI)
qed

text \<open>
  Claim C10 as stated fails on a catalog that holds a subscription record: the record
  is copied to every power level, and the checks of the validator on a power level pass.
  It fails also on a catalog that is not an array: \<open>map\<close> is not defined on it and the
  converter throws.
\<close>

theorem catalog_with_subscription_passes:
  "(\<exists>result h a.
      processBaseOptions_fixed example_store (Ref 3) = Inr (result, h)
    \<and> result ''3'' = Some (Ref a)
    \<and> list_ex (\<lambda>p. get_prop p ''price_type'' = Str ''subscription'')
        (elements (reify 2 h (Ref a)))
    \<and> (\<forall>P. validateContractSpecificRequirements P (elements (reify 2 h (Ref a))) ''edf-base''
             = Inr ())
    \<and> (\<forall>P. validate_power P ''edf-base'' (''3'', reify 2 h (Ref a)) = Inr ()))
   \<and> processBaseOptions_fixed example_store (Ref 0) = Inl TypeError"
proof -
  have c3: "cell_at example_store 3 = Some (ArrCell [Ref 2])"
    by (simp add: cell_at_def example_store_def)
  from fixed_run [OF example_store_closed c3] obtain result h where
    run: "processBaseOptions_fixed example_store (Ref 3) = Inr (result, h)"
    and each: "\<forall>p \<in> set subscribedPowers. \<exists>a. result p = Some (Ref a)
          \<and> (\<forall>k. reify (Suc k) h (Ref a) = Arr (map (spread k example_store) [Ref 2]))"
    by blast
  have "''3'' \<in> set subscribedPowers" by (simp add: subscribedPowers_def)
  with each obtain a where a: "result ''3'' = Some (Ref a)"
    and r: "\<forall>k. reify (Suc k) h (Ref a) = Arr (map (spread k example_store) [Ref 2])"
    by blast
  have s: "spread (Suc 0) example_store (Ref 2)
         = Obj [(''contract'', Str ''base''), (''price_type'', Str ''subscription''),
                (''currency'', Str ''euro''), (''start_date'', Str ''2024-01-01''),
                (''end_date'', Null), (''price'', Num (Fin 1)),
                (''hour_slots'', Null), (''day_type'', Null)]"
    by (simp add: own_props_def cell_at_def example_store_def)
  from r have r1: "reify (Suc (Suc 0)) h (Ref a)
      = Arr (map (spread (Suc 0) example_store) [Ref 2])"
    by (rule spec)
  have two: "reify 2 h (Ref a) = reify (Suc (Suc 0)) h (Ref a)"
    by (simp only: numeral_2_eq_2)
  have r2: "reify 2 h (Ref a)
      = Arr [Obj [(''contract'', Str ''base''), (''price_type'', Str ''subscription''),
                (''currency'', Str ''euro''), (''start_date'', Str ''2024-01-01''),
                (''end_date'', Null), (''price'', Num (Fin 1)),
                (''hour_slots'', Null), (''day_type'', Null)]]"
    by (simp only: two r1 list.map s)
  have e: "list_ex (\<lambda>p. get_prop p ''price_type'' = Str ''subscription'')
        (elements (reify 2 h (Ref a)))"
    unfolding r2 by simp
  have v: "\<forall>P. validateContractSpecificRequirements P (elements (reify 2 h (Ref a))) ''edf-base''
             = Inr ()"
    unfolding r2
    by (simp add: validateContractSpecificRequirements_def subscription_check_def
        consumption_check_def)
  have w: "\<forall>P. validate_power P ''edf-base'' (''3'', reify 2 h (Ref a)) = Inr ()"
    unfolding r2
    by (simp add: validate_power_def validatePriceObject_def requiredFields_def
        validContracts_def dateRegex_test_def is_digit_def
        validateContractSpecificRequirements_def subscription_check_def consumption_check_def)
  have t: "processBaseOptions_fixed example_store (Ref 0) = Inl TypeError"
    by (simp add: processBaseOptions_fixed_def subscribedPowers_def map_copy_def cell_at_def
        example_store_def)
  from run a e v w have "\<exists>result h a.
      processBaseOptions_fixed example_store (Ref 3) = Inr (result, h)
    \<and> result ''3'' = Some (Ref a)
    \<and> list_ex (\<lambda>p. get_prop p ''price_type'' = Str ''subscription'')
        (elements (reify 2 h (Ref a)))
    \<and> (\<forall>P. validateContractSpecificRequirements P (elements (reify 2 h (Ref a))) ''edf-base''
             = Inr ())
    \<and> (\<forall>P. validate_power P ''edf-base'' (''3'', reify 2 h (Ref a)) = Inr ())"
    by blast
  then show ?thesis using t ..
qed

end
